theory Spec2Isabelle
  imports Complex_Main "HOL-Library.Word" "HOL-Library.Multiset" "HOL-Library.List_Lexorder"
begin

section \<open>Data model\<close>

text \<open>
  The editor works on JavaScript values. A JavaScript string is a sequence of 16-bit code
  units, a byte buffer is a sequence of 8-bit values. Integers that the code keeps in
  JavaScript numbers (offsets, lengths, counts, version numbers) are natural numbers here;
  the places where the code stores them into a fixed-width field reduce them modulo the
  width of the field, as \<open>DataView.setUint16\<close> and \<open>DataView.setUint32\<close> do.
\<close>

type_synonym jsstring = "16 word list"
type_synonym byte = "8 word"

definition str :: "string \<Rightarrow> jsstring" where
  "str s = map (\<lambda>c. of_nat (of_char c)) s"

text \<open>
  The interface \<open>Block\<close> of the source: \<open>type\<close> is mandatory, all other fields are
  optional (\<open>None\<close> is JavaScript's \<open>undefined\<close>). The type of the channel values is a
  parameter: the codec only moves them in and out of 32-bit fields, the colour engine
  calculates with them.
\<close>

datatype BlockType = groupStart | groupEnd | color

record 'v Block =
  type :: BlockType
  name :: "jsstring option"
  model :: "jsstring option"
  "values" :: "'v list option"
  colorType :: "nat option"

record 'v AseData =
  version :: "nat \<times> nat"
  blocks :: "'v Block list"

text \<open>
  JavaScript truthiness of an optional string (\<open>block.name\<close> in a condition, or
  \<open>block.model || 'RGB '\<close>): \<open>undefined\<close> and the empty string are falsy.
\<close>

definition orElse :: "jsstring option \<Rightarrow> jsstring \<Rightarrow> jsstring" where
  "orElse s d = (case s of None \<Rightarrow> d | Some x \<Rightarrow> if x = [] then d else x)"

definition truthy :: "jsstring option \<Rightarrow> bool" where
  "truthy s = (case s of None \<Rightarrow> False | Some x \<Rightarrow> x \<noteq> [])"

section \<open>Binary codec\<close>

subsection \<open>Reading from a DataView\<close>

text \<open>
  Every read of a \<open>DataView\<close> outside the buffer throws a \<open>RangeError\<close>; the only error
  that \<open>parseASE\<close> throws itself is the one for a wrong signature. Both are values of
  the result type here. All multi-byte reads are big-endian, the default of \<open>DataView\<close>.
\<close>

datatype error = InvalidSignature | RangeError

definition bindE :: "error + 'a \<Rightarrow> ('a \<Rightarrow> error + 'b) \<Rightarrow> error + 'b" where
  "bindE m f = (case m of Inl e \<Rightarrow> Inl e | Inr x \<Rightarrow> f x)"

definition getUint8 :: "byte list \<Rightarrow> nat \<Rightarrow> error + nat" where
  "getUint8 view off =
     (if off < length view then Inr (unat (view ! off)) else Inl RangeError)"

definition getUint16 :: "byte list \<Rightarrow> nat \<Rightarrow> error + nat" where
  "getUint16 view off =
     (if off + 2 \<le> length view
      then Inr (256 * unat (view ! off) + unat (view ! (off + 1)))
      else Inl RangeError)"

definition getUint32 :: "byte list \<Rightarrow> nat \<Rightarrow> error + nat" where
  "getUint32 view off =
     (if off + 4 \<le> length view
      then Inr (16777216 * unat (view ! off) + 65536 * unat (view ! (off + 1))
                + 256 * unat (view ! (off + 2)) + unat (view ! (off + 3)))
      else Inl RangeError)"

text \<open>
  A 32-bit float is read and written through its bit pattern. How a JavaScript number
  is rounded to a bit pattern (\<open>setFloat32\<close>) and how a bit pattern is read back as a
  number (\<open>getFloat32\<close>) is the platform's business and is a parameter of the codec.
\<close>

record 'v Float32 =
  toBits :: "'v \<Rightarrow> 32 word"
  ofBits :: "32 word \<Rightarrow> 'v"

definition getFloat32 :: "'v Float32 \<Rightarrow> byte list \<Rightarrow> nat \<Rightarrow> error + 'v" where
  "getFloat32 F view off =
     bindE (getUint32 view off) (\<lambda>n. Inr (ofBits F (of_nat n)))"

fun getChar :: "byte list \<Rightarrow> nat \<Rightarrow> nat \<Rightarrow> error + jsstring" where
  "getChar view off 0 = Inr []"
| "getChar view off (Suc n) =
     bindE (getUint8 view off) (\<lambda>c.
     bindE (getChar view (off + 1) n) (\<lambda>s. Inr (of_nat c # s)))"

fun getUTF16Units :: "byte list \<Rightarrow> nat \<Rightarrow> nat \<Rightarrow> error + jsstring" where
  "getUTF16Units view off 0 = Inr []"
| "getUTF16Units view off (Suc n) =
     bindE (getUint16 view off) (\<lambda>c.
     bindE (getUTF16Units view (off + 2) n) (\<lambda>s. Inr (of_nat c # s)))"

text \<open>
  \<open>getUTF16String\<close> reads \<open>length - 1\<close> code units: the loop \<open>for (i = 0; i < length-1; i++)\<close>
  does not run for \<open>length = 0\<close>, which the truncating subtraction on \<open>nat\<close> gives as well.
\<close>

definition getUTF16String :: "byte list \<Rightarrow> nat \<Rightarrow> nat \<Rightarrow> error + jsstring" where
  "getUTF16String view off len = getUTF16Units view off (len - 1)"

fun getFloats :: "'v Float32 \<Rightarrow> byte list \<Rightarrow> nat \<Rightarrow> nat \<Rightarrow> error + 'v list" where
  "getFloats F view off 0 = Inr []"
| "getFloats F view off (Suc n) =
     bindE (getFloat32 F view off) (\<lambda>v.
     bindE (getFloats F view (off + 4) n) (\<lambda>vs. Inr (v # vs)))"

subsection \<open>parseASE\<close>

definition numChannels :: "jsstring \<Rightarrow> nat" where
  "numChannels m =
     (if m = str ''CMYK'' then 4
      else if m = str ''RGB '' \<or> m = str ''LAB '' then 3
      else if m = str ''Gray'' then 1
      else 0)"

text \<open>\<open>name.replace(/\0/g, '')\<close>: all NUL code units are removed.\<close>

definition stripNul :: "jsstring \<Rightarrow> jsstring" where
  "stripNul s = filter (\<lambda>c. c \<noteq> 0) s"

text \<open>
  One round of the loop of \<open>parseASE\<close>, started with the cursor at \<open>offset0\<close>. The
  result is the block pushed to \<open>data.blocks\<close>, if any, and the cursor after the final
  assignment \<open>offset = endOfBlock\<close>.
\<close>

definition parseBlock ::
  "'v Float32 \<Rightarrow> byte list \<Rightarrow> nat \<Rightarrow> error + ('v Block option \<times> nat)" where
  "parseBlock F view offset0 =
     bindE (getUint16 view offset0) (\<lambda>blockType.
     bindE (getUint32 view (offset0 + 2)) (\<lambda>blockLen.
       let offset = offset0 + 6; endOfBlock = offset + blockLen in
       if blockType = 0xC001 then
         bindE (getUint16 view offset) (\<lambda>nameLen.
         bindE (getUTF16String view (offset + 2) nameLen) (\<lambda>nm.
           Inr (Some \<lparr>type = groupStart, name = Some nm, model = None,
                      values = None, colorType = None\<rparr>, endOfBlock)))
       else if blockType = 0xC002 then
         Inr (Some \<lparr>type = groupEnd, name = None, model = None,
                    values = None, colorType = None\<rparr>, endOfBlock)
       else if blockType = 0x0001 then
         bindE (getUint16 view offset) (\<lambda>nameLen.
         bindE (getUTF16String view (offset + 2) nameLen) (\<lambda>nm.
         bindE (getChar view (offset + 2 + nameLen * 2) 4) (\<lambda>mdl.
         bindE (getFloats F view (offset + 2 + nameLen * 2 + 4) (numChannels mdl)) (\<lambda>vs.
         bindE (getUint16 view (offset + 2 + nameLen * 2 + 4 + 4 * numChannels mdl)) (\<lambda>ct.
           Inr (Some \<lparr>type = color, name = Some (stripNul nm), model = Some mdl,
                      values = Some vs, colorType = Some ct\<rparr>, endOfBlock))))))
       else Inr (None, endOfBlock)))"

fun parseBlocks ::
  "'v Float32 \<Rightarrow> byte list \<Rightarrow> nat \<Rightarrow> nat \<Rightarrow> 'v Block list \<Rightarrow> error + 'v Block list" where
  "parseBlocks F view 0 offset acc = Inr acc"
| "parseBlocks F view (Suc n) offset acc =
     bindE (parseBlock F view offset) (\<lambda>(ob, offset').
       parseBlocks F view n offset' (case ob of None \<Rightarrow> acc | Some b \<Rightarrow> acc @ [b]))"

definition parseASE :: "'v Float32 \<Rightarrow> byte list \<Rightarrow> error + 'v AseData" where
  "parseASE F buffer =
     bindE (getChar buffer 0 4) (\<lambda>signature.
       if signature \<noteq> str ''ASEF'' then Inl InvalidSignature
       else
         bindE (getUint16 buffer 4) (\<lambda>verMaj.
         bindE (getUint16 buffer 6) (\<lambda>verMin.
         bindE (getUint32 buffer 8) (\<lambda>blockCount.
         bindE (parseBlocks F buffer blockCount 12 []) (\<lambda>bs.
           Inr \<lparr>version = (verMaj, verMin), blocks = bs\<rparr>)))))"

subsection \<open>createASEBuffer\<close>

definition u16 :: "nat \<Rightarrow> byte list" where
  "u16 val = [of_nat (val div 256), of_nat val]"

definition u32 :: "nat \<Rightarrow> byte list" where
  "u32 val = [of_nat (val div 16777216), of_nat (val div 65536), of_nat (val div 256), of_nat val]"

text \<open>\<open>strToBytes\<close> stores each code unit into a \<open>Uint8Array\<close>, which keeps its low byte.\<close>

definition strToBytes :: "jsstring \<Rightarrow> byte list" where
  "strToBytes s = map (\<lambda>c. of_nat (unat c)) s"

definition strToUTF16Bytes :: "jsstring \<Rightarrow> byte list" where
  "strToUTF16Bytes s = concat (map (\<lambda>c. u16 (unat c)) s)"

definition floatBytes :: "'v Float32 \<Rightarrow> 'v list \<Rightarrow> byte list" where
  "floatBytes F vs = concat (map (\<lambda>v. u32 (unat (toBits F v))) vs)"

text \<open>\<open>block.colorType || 2\<close>: \<open>undefined\<close> and \<open>0\<close> are both falsy.\<close>

definition colorTypeOr2 :: "nat option \<Rightarrow> nat" where
  "colorTypeOr2 ct = (case ct of None \<Rightarrow> 2 | Some n \<Rightarrow> if n = 0 then 2 else n)"

text \<open>
  The bytes that one round of the loop of \<open>createASEBuffer\<close> appends. A block that
  passes none of the three tests appends nothing.
\<close>

definition encodeBlock :: "'v Float32 \<Rightarrow> 'v Block \<Rightarrow> byte list" where
  "encodeBlock F block =
     (if type block = groupStart \<and> truthy (name block) then
        (let nm = the (name block);
             nameBytes = strToUTF16Bytes (nm @ [0]);
             len = 2 + length nameBytes
         in u16 0xC001 @ u32 len @ u16 (length nm + 1) @ nameBytes)
      else if type block = groupEnd then u16 0xC002 @ u32 0
      else if type block = color \<and> truthy (name block) \<and> values block \<noteq> None then
        (let nm = the (name block);
             vs = the (values block);
             nameBytes = strToUTF16Bytes (nm @ [0]);
             modelBytes = strToBytes (orElse (model block) (str ''RGB ''));
             valBytesLen = length vs * 4;
             payloadLen = 2 + length nameBytes + 4 + valBytesLen + 2
         in u16 0x0001 @ u32 payloadLen @ u16 (length nm + 1) @ nameBytes @ modelBytes
            @ floatBytes F vs @ u16 (colorTypeOr2 (colorType block)))
      else [])"

definition createASEBuffer :: "'v Float32 \<Rightarrow> 'v AseData \<Rightarrow> byte list" where
  "createASEBuffer F data =
     strToBytes (str ''ASEF'') @ u16 (fst (version data)) @ u16 (snd (version data))
     @ u32 (length (blocks data)) @ concat (map (encodeBlock F) (blocks data))"

section \<open>Colour conversion\<close>

text \<open>
  The colour functions calculate with JavaScript numbers, that is with IEEE doubles. A
  finite double is a real number, and the functions are modelled on the reals with the
  rounding of the source made explicit: every arithmetic operation of the source is the
  exact operation followed by \<open>rounding\<close>, the rounding of a real number to the nearest
  double, and every decimal literal is rounded likewise. The rounding is a parameter of
  the model; the properties of it that the proofs use are collected in \<open>ieeeDouble\<close>
  below. Negation, the absolute value, \<open>Math.min\<close>, \<open>Math.max\<close>, \<open>Math.round\<close> and the
  comparisons are exact on doubles.

  Infinities and NaN are no real numbers. The two places where the source meets
  \<open>undefined\<close> or \<open>NaN\<close> by its own control flow (an array read past the end,
  \<open>parseInt\<close> of a string without digits) are values of type \<open>option\<close>. The stored
  channels of a block are finite doubles in this model, and where an operation of the
  source can overflow to an infinity the model says so at the function concerned.
\<close>

subsection \<open>Strings and numbers\<close>

text \<open>The white space that \<open>String.prototype.trim\<close> and \<open>parseInt\<close> remove.\<close>

definition isWhiteSpace :: "16 word \<Rightarrow> bool" where
  "isWhiteSpace c =
     (c \<in> {0x09, 0x0A, 0x0B, 0x0C, 0x0D, 0x20, 0xA0, 0x1680, 0x2028, 0x2029,
            0x202F, 0x205F, 0x3000, 0xFEFF}
      \<or> (0x2000 \<le> c \<and> c \<le> 0x200A))"

definition trim :: "jsstring \<Rightarrow> jsstring" where
  "trim s = rev (dropWhile isWhiteSpace (rev (dropWhile isWhiteSpace s)))"

definition digitVal :: "16 word \<Rightarrow> nat option" where
  "digitVal c =
     (let n = unat c in
      if 48 \<le> n \<and> n \<le> 57 then Some (n - 48)
      else if 97 \<le> n \<and> n \<le> 122 then Some (n - 87)
      else if 65 \<le> n \<and> n \<le> 90 then Some (n - 55)
      else None)"

definition isDigitIn :: "nat \<Rightarrow> 16 word \<Rightarrow> bool" where
  "isDigitIn r c = (case digitVal c of None \<Rightarrow> False | Some d \<Rightarrow> d < r)"

definition digitsValue :: "nat \<Rightarrow> jsstring \<Rightarrow> nat" where
  "digitsValue r ds = foldl (\<lambda>acc c. acc * r + the (digitVal c)) 0 ds"

text \<open>
  \<open>parseInt(string, radix)\<close> as ECMAScript defines it; radix \<open>0\<close> stands for an omitted
  radix. \<open>None\<close> is \<open>NaN\<close>. \<open>digitsValue\<close> is only applied to code units that
  \<open>isDigitIn\<close> has accepted. The result is the mathematical integer; \<open>intNumber\<close>
  below makes a number of it.
\<close>

definition parseInt :: "jsstring \<Rightarrow> nat \<Rightarrow> int option" where
  "parseInt s radix =
     (let s1 = dropWhile isWhiteSpace s;
          neg = (s1 \<noteq> [] \<and> hd s1 = 0x2D);
          s2 = (if s1 \<noteq> [] \<and> (hd s1 = 0x2B \<or> hd s1 = 0x2D) then tl s1 else s1)
      in if radix \<noteq> 0 \<and> (radix < 2 \<or> 36 < radix) then None
         else
           (let stripPrefix = (radix = 0 \<or> radix = 16);
                hasPrefix = (stripPrefix \<and> (take 2 s2 = str ''0x'' \<or> take 2 s2 = str ''0X''));
                r = (if hasPrefix then 16 else if radix = 0 then 10 else radix);
                s3 = (if hasPrefix then drop 2 s2 else s2);
                z = takeWhile (isDigitIn r) s3
            in if z = [] then None
               else Some ((if neg then - 1 else 1) * int (digitsValue r z))))"

text \<open>\<open>Math.round\<close> rounds halves upwards; the result is an integer, hence exact.\<close>

definition jsRound :: "real \<Rightarrow> int" where
  "jsRound x = \<lfloor>x + 1 / 2\<rfloor>"

text \<open>\<open>v[i] || 0\<close> on an array of numbers: a missing element counts as \<open>0\<close>.\<close>

definition ch :: "real list \<Rightarrow> nat \<Rightarrow> real" where
  "ch v i = (if i < length v then v ! i else 0)"

text \<open>\<open>values[i]\<close> without a default: \<open>undefined\<close> past the end.\<close>

definition valueAt :: "real list \<Rightarrow> nat \<Rightarrow> real option" where
  "valueAt v i = (if i < length v then Some (v ! i) else None)"

subsection \<open>The platform, the reference library and the colour engine\<close>

text \<open>
  The module \<open>pantone-library\<close> (the reference table with \<open>getOfficialEntry\<close> and
  \<open>getOfficialHex\<close>) and the WebAssembly colour transform are not part of the sources
  at hand. They are parameters of the model. Of a \<open>PantoneEntry\<close> the fields that
  \<open>color-utils\<close> reads are kept; all of them are strings.

  \<open>isReady\<close> and \<open>cmykTransform\<close> are the module variables of the colour engine
  (\<open>cmykTransform = 0\<close> is the falsy handle). \<open>doTransform\<close> stands for the body of the
  \<open>try\<close> block of \<open>cmykToProfileRGB\<close>: from the four source bytes to the three bytes
  read back from the heap, or \<open>None\<close> when anything in the block throws.
  \<open>localeCompare\<close> is \<open>String.prototype.localeCompare\<close> of the platform.

  \<open>rounding\<close> is the rounding of a real number to the nearest double, and \<open>mathPow\<close> is
  \<open>Math.pow\<close>, which ECMAScript leaves to the implementation. \<open>labOverflow\<close> is what
  \<open>labToRgbValues\<close> returns for channels so large that its arithmetic can leave the
  finite doubles (see there).
\<close>

record PantoneEntry =
  Hex :: jsstring
  R :: jsstring
  G :: jsstring
  B :: jsstring
  C :: jsstring
  M :: jsstring
  Y :: jsstring
  K :: jsstring

record Env =
  getOfficialEntry :: "jsstring \<Rightarrow> PantoneEntry option"
  getOfficialHex :: "jsstring \<Rightarrow> jsstring option"
  isReady :: bool
  cmykTransform :: nat
  doTransform :: "byte list \<Rightarrow> (byte \<times> byte \<times> byte) option"
  localeCompare :: "jsstring \<Rightarrow> jsstring \<Rightarrow> int"
  rounding :: "real \<Rightarrow> real"
  mathPow :: "real \<Rightarrow> real \<Rightarrow> real"
  labOverflow :: "real \<Rightarrow> real \<Rightarrow> real \<Rightarrow> real list"

text \<open>
  The arithmetic of doubles: the exact result, rounded. \<open>lit\<close> is a decimal literal of
  the source and \<open>intNumber\<close> the number that \<open>parseInt\<close> returns for an integer
  (beyond 20 significant digits ECMAScript allows an approximation; the statements below
  concern integers up to 255). Integer literals such as \<open>255\<close> are doubles already.
  The divisors of the source are constants other than zero, except in \<open>rgbToCmyk\<close>,
  which divides by \<open>1 - k\<close> for a double \<open>k\<close> other than \<open>1\<close>: that difference is
  not zero in doubles.
\<close>

definition lit :: "Env \<Rightarrow> real \<Rightarrow> real" where
  "lit env x = rounding env x"

definition intNumber :: "Env \<Rightarrow> int \<Rightarrow> real" where
  "intNumber env n = rounding env (real_of_int n)"

definition fadd :: "Env \<Rightarrow> real \<Rightarrow> real \<Rightarrow> real" where
  "fadd env a b = rounding env (a + b)"

definition fsub :: "Env \<Rightarrow> real \<Rightarrow> real \<Rightarrow> real" where
  "fsub env a b = rounding env (a - b)"

definition fmul :: "Env \<Rightarrow> real \<Rightarrow> real \<Rightarrow> real" where
  "fmul env a b = rounding env (a * b)"

definition fdiv :: "Env \<Rightarrow> real \<Rightarrow> real \<Rightarrow> real" where
  "fdiv env a b = rounding env (a / b)"

subsection \<open>color-utils and color-engine\<close>

text \<open>
  \<open>hexToRgb\<close>: the regular expression \<open>/^#?([a-f\d]{2})([a-f\d]{2})([a-f\d]{2})$/i\<close>
  accepts an optional \<open>#\<close> followed by exactly six hexadecimal digits.
\<close>

definition hexByte :: "Env \<Rightarrow> jsstring \<Rightarrow> real" where
  "hexByte env s = (case parseInt s 16 of None \<Rightarrow> 0 | Some n \<Rightarrow> fdiv env (intNumber env n) 255)"

definition hexToRgb :: "Env \<Rightarrow> jsstring \<Rightarrow> real list" where
  "hexToRgb env hex =
     (let h = (if hex \<noteq> [] \<and> hd hex = 0x23 then tl hex else hex)
      in if length h = 6 \<and> list_all (isDigitIn 16) h
         then [hexByte env (take 2 h), hexByte env (take 2 (drop 2 h)), hexByte env (take 2 (drop 4 h))]
         else [0, 0, 0])"

text \<open>
  \<open>Math.abs(values[i] - parseInt(s) / d) < TOLERANCE\<close> with \<open>TOLERANCE = 0.01\<close>: the
  quotient, the difference and the literal are doubles. False when the value is missing
  or the string has no number.
\<close>

definition near :: "Env \<Rightarrow> real option \<Rightarrow> int option \<Rightarrow> real \<Rightarrow> bool" where
  "near env x n d =
     (case (x, n) of
        (Some a, Some b) \<Rightarrow> \<bar>fsub env a (fdiv env (intNumber env b) d)\<bar> < lit env 0.01
      | _ \<Rightarrow> False)"

definition isStandardPantone :: "Env \<Rightarrow> real Block \<Rightarrow> PantoneEntry \<Rightarrow> bool" where
  "isStandardPantone env block entry =
     (let vs = (case values block of None \<Rightarrow> [] | Some v \<Rightarrow> v);
          m = trim (orElse (model block) (str ''RGB''))
      in if m = str ''CMYK'' then
           near env (valueAt vs 0) (parseInt (C entry) 0) 100
           \<and> near env (valueAt vs 1) (parseInt (M entry) 0) 100
           \<and> near env (valueAt vs 2) (parseInt (Y entry) 0) 100
           \<and> near env (valueAt vs 3) (parseInt (K entry) 0) 100
         else if m = str ''RGB'' then
           near env (valueAt vs 0) (parseInt (R entry) 0) 255
           \<and> near env (valueAt vs 1) (parseInt (G entry) 0) 255
           \<and> near env (valueAt vs 2) (parseInt (B entry) 0) 255
         else True)"

text \<open>
  \<open>simpleCmykToRgb\<close>: \<open>255 * (1 - c) * (1 - k)\<close> is three operations on doubles, read
  from the left, and \<open>Math.round\<close> of the result.
\<close>

definition simpleCmykToRgb :: "Env \<Rightarrow> real \<Rightarrow> real \<Rightarrow> real \<Rightarrow> real \<Rightarrow> real list" where
  "simpleCmykToRgb env c m y k =
     [real_of_int (jsRound (fmul env (fmul env 255 (fsub env 1 c)) (fsub env 1 k))),
      real_of_int (jsRound (fmul env (fmul env 255 (fsub env 1 m)) (fsub env 1 k))),
      real_of_int (jsRound (fmul env (fmul env 255 (fsub env 1 y)) (fsub env 1 k)))]"

text \<open>A number stored into a \<open>Uint8Array\<close> is reduced modulo 256.\<close>

definition toUint8 :: "int \<Rightarrow> byte" where
  "toUint8 n = of_int n"

definition cmykToProfileRGB :: "Env \<Rightarrow> real \<Rightarrow> real \<Rightarrow> real \<Rightarrow> real \<Rightarrow> real list" where
  "cmykToProfileRGB env c m y k =
     (if \<not> isReady env \<or> cmykTransform env = 0 then simpleCmykToRgb env c m y k
      else
        (case doTransform env [toUint8 (jsRound (fmul env c 255)), toUint8 (jsRound (fmul env m 255)),
                               toUint8 (jsRound (fmul env y 255)), toUint8 (jsRound (fmul env k 255))] of
           None \<Rightarrow> simpleCmykToRgb env c m y k
         | Some (r, g, b) \<Rightarrow> [real (unat r), real (unat g), real (unat b)]))"

definition toSrgb :: "Env \<Rightarrow> real \<Rightarrow> real" where
  "toSrgb env v =
     (if v \<le> lit env 0.0031308 then fmul env (lit env 12.92) v
      else fsub env (fmul env (lit env 1.055) (mathPow env v (fdiv env 1 (lit env 2.4))))
                    (lit env 0.055))"

text \<open>
  \<open>labToRgbValues\<close>. As long as the three channels are at most \<open>10^100\<close> in magnitude,
  every intermediate result of the source is a finite double (the largest are the cubes,
  below \<open>10^300\<close>), and \<open>Math.min(1, Math.max(0, x))\<close> clamps. Beyond that the cubes can
  overflow to an infinity and the sums that follow can be NaN, which \<open>Math.max\<close> and
  \<open>Math.min\<close> pass on; the same holds for a channel that is an infinity itself. What the
  source returns there is no list of real numbers, and the model leaves it open: it is
  the parameter \<open>labOverflow\<close>.
\<close>

definition labToRgbValues :: "Env \<Rightarrow> real \<Rightarrow> real \<Rightarrow> real \<Rightarrow> real list" where
  "labToRgbValues env L a b =
     (if \<bar>L\<bar> \<le> 10 ^ 100 \<and> \<bar>a\<bar> \<le> 10 ^ 100 \<and> \<bar>b\<bar> \<le> 10 ^ 100 then
        (let validL = (if L \<le> lit env 1.05 \<and> L > 0 then fmul env L 100 else L);
             y0 = fdiv env (fadd env validL 16) 116;
             x0 = fadd env (fdiv env a 500) y0;
             z0 = fsub env y0 (fdiv env b 200);
             refX = lit env 96.422; refY = 100; refZ = lit env 82.521;
             epsilon = lit env 0.008856; kappa = lit env 903.3;
             x3 = mathPow env x0 3; y3 = mathPow env y0 3; z3 = mathPow env z0 3;
             x1 = fmul env (if x3 > epsilon then x3
                            else fdiv env (fsub env (fmul env 116 x0) 16) kappa) refX;
             y1 = fmul env (if y3 > epsilon then y3
                            else fdiv env (fsub env (fmul env 116 y0) 16) kappa) refY;
             z1 = fmul env (if z3 > epsilon then z3
                            else fdiv env (fsub env (fmul env 116 z0) 16) kappa) refZ;
             X50 = fdiv env x1 100; Y50 = fdiv env y1 100; Z50 = fdiv env z1 100;
             x = fadd env (fadd env (fmul env X50 (lit env 0.9555766))
                                    (fmul env Y50 (- lit env 0.0230393)))
                          (fmul env Z50 (lit env 0.0631636));
             y = fadd env (fadd env (fmul env X50 (- lit env 0.0282895))
                                    (fmul env Y50 (lit env 1.0099416)))
                          (fmul env Z50 (lit env 0.0210077));
             z = fadd env (fadd env (fmul env X50 (lit env 0.0122982))
                                    (fmul env Y50 (- lit env 0.0204830)))
                          (fmul env Z50 (lit env 1.3299098));
             rLin = fadd env (fadd env (fmul env x (lit env 3.2404542))
                                       (fmul env y (- lit env 1.5371385)))
                             (fmul env z (- lit env 0.4985314));
             gLin = fadd env (fadd env (fmul env x (- lit env 0.9692660))
                                       (fmul env y (lit env 1.8760108)))
                             (fmul env z (lit env 0.0415560));
             bLin = fadd env (fadd env (fmul env x (lit env 0.0556434))
                                       (fmul env y (- lit env 0.2040259)))
                             (fmul env z (lit env 1.0572252))
         in [min 1 (max 0 (toSrgb env rLin)), min 1 (max 0 (toSrgb env gLin)),
             min 1 (max 0 (toSrgb env bLin))])
      else labOverflow env L a b)"

text \<open>
  Step 1 of \<open>blockToRgb\<close>, the authority check: the colour it returns, or \<open>None\<close> when
  the function goes on to the conversions.
\<close>

definition authority :: "Env \<Rightarrow> real Block \<Rightarrow> real list option" where
  "authority env block =
     (if truthy (name block) then
        (case getOfficialEntry env (the (name block)) of
           Some officialEntry \<Rightarrow>
             if isStandardPantone env block officialEntry then Some (hexToRgb env (Hex officialEntry))
             else None
         | None \<Rightarrow>
             (case getOfficialHex env (the (name block)) of
                Some officialHex \<Rightarrow> if officialHex \<noteq> [] then Some (hexToRgb env officialHex) else None
              | None \<Rightarrow> None))
      else None)"

definition blockToRgb :: "Env \<Rightarrow> real Block \<Rightarrow> real list" where
  "blockToRgb env block =
     (let m = trim (orElse (model block) (str ''RGB''));
          v = (case values block of None \<Rightarrow> [] | Some vs \<Rightarrow> vs)
      in if v = [] then [0, 0, 0]
         else
           (case authority env block of
              Some rgb \<Rightarrow> rgb
            | None \<Rightarrow>
                if m = str ''CMYK'' then
                  map (\<lambda>x. fdiv env x 255) (cmykToProfileRGB env (ch v 0) (ch v 1) (ch v 2) (ch v 3))
                else if m = str ''LAB'' then labToRgbValues env (ch v 0) (ch v 1) (ch v 2)
                else if m = str ''RGB'' then [ch v 0, ch v 1, ch v 2]
                else if m = str ''Gray'' then [ch v 0, ch v 0, ch v 0]
                else [0, 0, 0]))"

text \<open>\<open>rgbToCmyk\<close>; \<open>k === 1\<close> compares doubles.\<close>

definition rgbToCmyk :: "Env \<Rightarrow> real \<Rightarrow> real \<Rightarrow> real \<Rightarrow> real list" where
  "rgbToCmyk env r g b =
     (let c = fsub env 1 r; m = fsub env 1 g; y = fsub env 1 b; k = min c (min m y)
      in if k = 1 then [0, 0, 0, 1]
         else [fdiv env (fsub env c k) (fsub env 1 k), fdiv env (fsub env m k) (fsub env 1 k),
               fdiv env (fsub env y k) (fsub env 1 k), k])"

section \<open>Hierarchical sort\<close>

subsection \<open>The tree\<close>

datatype TreeNode =
  TreeNode (block: "real Block") (children: "TreeNode list") (endBlock: "real Block option")

definition leaf :: "real Block \<Rightarrow> TreeNode" where
  "leaf b = TreeNode b [] None"

text \<open>The block of the dummy root, \<open>{ type: 'groupStart' }\<close>.\<close>

definition rootBlock :: "real Block" where
  "rootBlock = \<lparr>type = groupStart, name = None, model = None, values = None, colorType = None\<rparr>"

text \<open>
  The source builds the tree by mutation: a node is appended to \<open>parent.children\<close> when
  its \<open>groupStart\<close> is read and is filled through the reference on the stack afterwards.
  While a node is on the stack it is the last child of the node below it, because
  \<open>parent\<close> is always the top of the stack. The model keeps each node of the stack as a
  frame (its block and the children pushed so far, the top of the stack first, the root
  last) and appends the finished node to the frame below when the node leaves the stack:
  at its \<open>groupEnd\<close>, or at the end of the scan for the groups that were never closed.
  The position among the children of the parent is the same in both.
\<close>

type_synonym frame = "real Block \<times> TreeNode list"

fun addChild :: "TreeNode \<Rightarrow> frame list \<Rightarrow> frame list" where
  "addChild n [] = []"
| "addChild n ((b, cs) # fs) = (b, cs @ [n]) # fs"

definition pushBlock :: "frame list \<Rightarrow> real Block \<Rightarrow> frame list" where
  "pushBlock stack b =
     (case type b of
        groupStart \<Rightarrow> (b, []) # stack
      | groupEnd \<Rightarrow>
          (if length stack > 1
           then (case stack of (g, cs) # rest \<Rightarrow> addChild (TreeNode g cs (Some b)) rest | [] \<Rightarrow> [])
           else addChild (leaf b) stack)
      | color \<Rightarrow> addChild (leaf b) stack)"

fun closeAll :: "frame list \<Rightarrow> TreeNode" where
  "closeAll [] = TreeNode rootBlock [] None"
| "closeAll [(r, cs)] = TreeNode r cs None"
| "closeAll ((g, cs) # f # fs) = closeAll (addChild (TreeNode g cs None) (f # fs))"

definition buildTree :: "real Block list \<Rightarrow> TreeNode" where
  "buildTree bs = closeAll (foldl pushBlock [(rootBlock, [])] bs)"

subsection \<open>The comparator\<close>

text \<open>
  The sort uses the comparator through the sign of its result only. The keys of
  \<open>getHSL\<close> and their differences are written in exact arithmetic: the rounding of the
  doubles can change which of two nearly equal keys comes first, but the properties of
  the sort that are proved below hold whatever the keys are.
\<close>

definition getHSL :: "real \<Rightarrow> real \<Rightarrow> real \<Rightarrow> real \<times> real \<times> real" where
  "getHSL r g bVal =
     (let mx = max r (max g bVal); mn = min r (min g bVal); l = (mx + mn) / 2
      in if mx \<noteq> mn then
           (let d = mx - mn;
                s = (if l > 0.5 then d / (2 - mx - mn) else d / (mx + mn));
                h = (if mx = r then (g - bVal) / d + (if g < bVal then 6 else 0)
                     else if mx = g then (bVal - r) / d + 2
                     else if mx = bVal then (r - g) / d + 4
                     else 0)
            in (h / 6, s, l))
         else (0, 0, l))"

definition compareColors :: "Env \<Rightarrow> jsstring \<Rightarrow> real Block \<Rightarrow> real Block \<Rightarrow> real" where
  "compareColors env criterion a b =
     (if criterion = str ''name''
      then real_of_int (localeCompare env (orElse (name a) []) (orElse (name b) []))
      else
        (let rgbA = blockToRgb env a; rgbB = blockToRgb env b;
             hslA = getHSL (rgbA ! 0) (rgbA ! 1) (rgbA ! 2);
             hslB = getHSL (rgbB ! 0) (rgbB ! 1) (rgbB ! 2)
         in if criterion = str ''hue'' then fst hslA - fst hslB
            else if criterion = str ''saturation'' then fst (snd hslB) - fst (snd hslA)
            else if criterion = str ''lightness'' then snd (snd hslA) - snd (snd hslB)
            else 0))"

definition compareNodes :: "Env \<Rightarrow> jsstring \<Rightarrow> TreeNode \<Rightarrow> TreeNode \<Rightarrow> real" where
  "compareNodes env criterion a b =
     (let isGroupA = (type (block a) = groupStart);
          isGroupB = (type (block b) = groupStart)
      in if isGroupA \<and> \<not> isGroupB then - 1
         else if \<not> isGroupA \<and> isGroupB then 1
         else if isGroupA \<and> isGroupB
           then real_of_int (localeCompare env (orElse (name (block a)) [])
                                              (orElse (name (block b)) []))
         else compareColors env criterion (block a) (block b))"

subsection \<open>Sorting and flattening\<close>

text \<open>
  \<open>Array.prototype.sort\<close> is stable, so for a comparator that is a consistent ordering
  its result is determined: the elements in ascending order, equal elements in their
  original order. The model is the insertion sort that produces this result. For a
  comparator that is not consistent ECMAScript leaves the order to the implementation.
\<close>

fun insertBy :: "('a \<Rightarrow> 'a \<Rightarrow> real) \<Rightarrow> 'a \<Rightarrow> 'a list \<Rightarrow> 'a list" where
  "insertBy cmp x [] = [x]"
| "insertBy cmp x (y # ys) = (if cmp x y \<le> 0 then x # y # ys else y # insertBy cmp x ys)"

definition arraySort :: "('a \<Rightarrow> 'a \<Rightarrow> real) \<Rightarrow> 'a list \<Rightarrow> 'a list" where
  "arraySort cmp xs = foldr (insertBy cmp) xs []"

text \<open>
  \<open>sortTree(nodes)\<close> first sorts the children of every node, then the nodes themselves;
  \<open>sortNode\<close> is what it does to one node.
\<close>

fun sortNode :: "Env \<Rightarrow> jsstring \<Rightarrow> TreeNode \<Rightarrow> TreeNode" where
  "sortNode env criterion (TreeNode b cs e) =
     TreeNode b (arraySort (compareNodes env criterion) (map (sortNode env criterion) cs)) e"

definition sortTree :: "Env \<Rightarrow> jsstring \<Rightarrow> TreeNode list \<Rightarrow> TreeNode list" where
  "sortTree env criterion nodes =
     arraySort (compareNodes env criterion) (map (sortNode env criterion) nodes)"

fun flatten :: "TreeNode \<Rightarrow> real Block list" where
  "flatten (TreeNode b cs e) =
     b # concat (map flatten cs) @ (case e of None \<Rightarrow> [] | Some x \<Rightarrow> [x])"

text \<open>\<open>flatten(root)\<close> skips the block of the root itself.\<close>

definition flattenRoot :: "TreeNode \<Rightarrow> real Block list" where
  "flattenRoot n =
     concat (map flatten (children n)) @ (case endBlock n of None \<Rightarrow> [] | Some x \<Rightarrow> [x])"

definition sortBlocksHierarchically :: "Env \<Rightarrow> real Block list \<Rightarrow> jsstring \<Rightarrow> real Block list" where
  "sortBlocksHierarchically env bs criterion =
     (let root = buildTree bs;
          sorted = TreeNode (block root) (sortTree env criterion (children root)) (endBlock root)
      in flattenRoot sorted)"

subsection \<open>Nesting depth in a flat block sequence\<close>

text \<open>
  The nesting depth of every block of a flat sequence, as any reader of the sequence
  determines it: a \<open>groupStart\<close> opens a level for the blocks after it, a \<open>groupEnd\<close>
  closes the innermost open level, and a \<open>groupEnd\<close> with no level open closes nothing.
  \<open>depths d bs\<close> pairs each block with its depth, for a scan that starts at depth \<open>d\<close>;
  a \<open>groupStart\<close> and its \<open>groupEnd\<close> carry the depth of the group itself.
\<close>

fun depths :: "nat \<Rightarrow> real Block list \<Rightarrow> (real Block \<times> nat) list" where
  "depths d [] = []"
| "depths d (b # bs) =
     (case type b of
        groupStart \<Rightarrow> (b, d) # depths (Suc d) bs
      | groupEnd \<Rightarrow> (b, d - 1) # depths (d - 1) bs
      | color \<Rightarrow> (b, d) # depths d bs)"

text \<open>The depth at which a scan ends: the number of groups left open.\<close>

fun finalDepth :: "nat \<Rightarrow> real Block list \<Rightarrow> nat" where
  "finalDepth d [] = d"
| "finalDepth d (b # bs) =
     (case type b of
        groupStart \<Rightarrow> finalDepth (Suc d) bs
      | groupEnd \<Rightarrow> finalDepth (d - 1) bs
      | color \<Rightarrow> finalDepth d bs)"

definition allGroupsClosed :: "real Block list \<Rightarrow> bool" where
  "allGroupsClosed bs = (finalDepth 0 bs = 0)"

section \<open>Notions used in the statements\<close>

text \<open>
  The properties of the rounding to the nearest double that the proofs use. All of them
  hold of IEEE 754 binary64 with rounding to nearest: the rounding is monotone; the
  integers up to \<open>2^53\<close> in magnitude are doubles; a real number up to \<open>2^1023\<close> in
  magnitude is rounded with a relative error of at most \<open>2^-53\<close>, or, in the subnormal
  range, with an absolute error of at most \<open>2^-1075\<close>; and the difference of two
  different doubles is not rounded to zero (gradual underflow).
\<close>

definition ieeeDouble :: "(real \<Rightarrow> real) \<Rightarrow> bool" where
  "ieeeDouble fl =
     ((\<forall>x y. x \<le> y \<longrightarrow> fl x \<le> fl y)
      \<and> (\<forall>n :: int. \<bar>n\<bar> \<le> 2 ^ 53 \<longrightarrow> fl (real_of_int n) = real_of_int n)
      \<and> (\<forall>x. \<bar>x\<bar> \<le> 2 ^ 1023 \<longrightarrow> \<bar>fl x - x\<bar> \<le> \<bar>x\<bar> / 2 ^ 53 + 1 / 2 ^ 1075)
      \<and> (\<forall>x y. fl x \<noteq> fl y \<longrightarrow> fl (fl x - fl y) \<noteq> 0))"

text \<open>An RGB triplet whose components all lie in the unit interval.\<close>

definition inUnit :: "real list \<Rightarrow> bool" where
  "inUnit rgb = (length rgb = 3 \<and> list_all (\<lambda>x. 0 \<le> x \<and> x \<le> 1) rgb)"

text \<open>
  The canonical values of a reference entry expressed in a colour model (the trimmed model
  tag): percentages for CMYK, 8-bit levels for RGB. \<open>None\<close> when the model has no such
  values in the entry or a field holds no number.
\<close>

definition canonicalValues :: "PantoneEntry \<Rightarrow> jsstring \<Rightarrow> real list option" where
  "canonicalValues entry m =
     (if m = str ''CMYK'' then
        (case (parseInt (C entry) 0, parseInt (M entry) 0, parseInt (Y entry) 0, parseInt (K entry) 0) of
           (Some c, Some mg, Some y, Some k) \<Rightarrow>
             Some [real_of_int c / 100, real_of_int mg / 100, real_of_int y / 100, real_of_int k / 100]
         | _ \<Rightarrow> None)
      else if m = str ''RGB'' then
        (case (parseInt (R entry) 0, parseInt (G entry) 0, parseInt (B entry) 0) of
           (Some r, Some g, Some b) \<Rightarrow>
             Some [real_of_int r / 255, real_of_int g / 255, real_of_int b / 255]
         | _ \<Rightarrow> None)
      else None)"

text \<open>
  The stored values lie within the tolerance of the canonical values, channel by channel,
  with a margin: the canonical values are in \<open>[0, 1]\<close>, and the distance is at most
  \<open>0.01 - 10^-9\<close>. The margin keeps the distance that the source computes in doubles
  below its \<open>TOLERANCE\<close>; at a distance of \<open>0.01\<close> up to rounding the comparison of the
  source can go either way (a stored \<open>0.04\<close> is not within the tolerance of \<open>5\<close> percent:
  the doubles give \<open>0.010000000000000002\<close>).
\<close>

definition withinTolerance :: "real list \<Rightarrow> real list \<Rightarrow> bool" where
  "withinTolerance vs cs =
     (length cs \<le> length vs
      \<and> list_all (\<lambda>(v, c). 0 \<le> c \<and> c \<le> 1 \<and> \<bar>v - c\<bar> \<le> 0.01 - 1 / 10 ^ 9) (zip vs cs))"

text \<open>
  The colour engine is unavailable for a CMYK quadruple: it is not initialised, or the
  transform fails on this input.
\<close>

definition engineUnavailable :: "Env \<Rightarrow> real \<Rightarrow> real \<Rightarrow> real \<Rightarrow> real \<Rightarrow> bool" where
  "engineUnavailable env c m y k =
     (\<not> isReady env \<or> cmykTransform env = 0
      \<or> doTransform env [toUint8 (jsRound (fmul env c 255)), toUint8 (jsRound (fmul env m 255)),
                          toUint8 (jsRound (fmul env y 255)), toUint8 (jsRound (fmul env k 255))] = None)"

text \<open>
  The analytic path from CMYK to RGB: \<open>simpleCmykToRgb\<close>, followed by the division
  by 255 with which \<open>blockToRgb\<close> normalises the result.
\<close>

definition analyticRgb :: "Env \<Rightarrow> real list \<Rightarrow> real list" where
  "analyticRgb env cmyk =
     map (\<lambda>x. fdiv env x 255) (simpleCmykToRgb env (ch cmyk 0) (ch cmyk 1) (ch cmyk 2) (ch cmyk 3))"

text \<open>
  A comparator is usable for sorting when the relation "\<open>cmp a b \<le> 0\<close>" is total and
  transitive.
\<close>

definition consistentComparator :: "('a \<Rightarrow> 'a \<Rightarrow> int) \<Rightarrow> bool" where
  "consistentComparator cmp =
     ((\<forall>a b. cmp a b \<le> 0 \<or> cmp b a \<le> 0)
      \<and> (\<forall>a b c. cmp a b \<le> 0 \<and> cmp b c \<le> 0 \<longrightarrow> cmp a c \<le> 0))"

subsection \<open>Notions for the codec\<close>

text \<open>
  What the 32-bit field does to a channel value: it is rounded to a bit pattern and read
  back.
\<close>

definition fround :: "'v Float32 \<Rightarrow> 'v \<Rightarrow> 'v" where
  "fround F v = ofBits F (toBits F v)"

text \<open>
  A valid document, in the terms of the file format: version numbers and block count fit
  their fields; a group has a non-empty name; a colour has a non-empty name without NUL
  code units, one of the four model tags, as many channel values as the model has
  channels, and a colour type that fits its field; names are short enough for the 16-bit
  length with its terminator.
\<close>

definition isModelTag :: "jsstring \<Rightarrow> bool" where
  "isModelTag m = (m = str ''CMYK'' \<or> m = str ''RGB '' \<or> m = str ''LAB '' \<or> m = str ''Gray'')"

definition validBlock :: "'v Block \<Rightarrow> bool" where
  "validBlock b =
     (case type b of
        groupStart \<Rightarrow> (case name b of None \<Rightarrow> False | Some nm \<Rightarrow> nm \<noteq> [] \<and> length nm < 65535)
      | groupEnd \<Rightarrow> True
      | color \<Rightarrow>
          (case name b of None \<Rightarrow> False
           | Some nm \<Rightarrow> nm \<noteq> [] \<and> length nm < 65535 \<and> 0 \<notin> set nm)
          \<and> (case model b of None \<Rightarrow> False | Some m \<Rightarrow> isModelTag m
               \<and> (case values b of None \<Rightarrow> False | Some vs \<Rightarrow> length vs = numChannels m))
          \<and> (case colorType b of None \<Rightarrow> True | Some ct \<Rightarrow> ct < 65536))"

definition validDocument :: "'v AseData \<Rightarrow> bool" where
  "validDocument d =
     (fst (version d) < 65536 \<and> snd (version d) < 65536 \<and> length (blocks d) < 4294967296
      \<and> list_all validBlock (blocks d))"

text \<open>
  The block that \<open>parseASE\<close> returns for an encoded block: groups keep their names, colours
  keep name and model, their values pass through the 32-bit field, and their colour type
  is the one that \<open>createASEBuffer\<close> wrote.
\<close>

definition decoded :: "'v Float32 \<Rightarrow> 'v Block \<Rightarrow> 'v Block" where
  "decoded F b =
     (case type b of
        groupStart \<Rightarrow> \<lparr>type = groupStart, name = name b, model = None, values = None, colorType = None\<rparr>
      | groupEnd \<Rightarrow> \<lparr>type = groupEnd, name = None, model = None, values = None, colorType = None\<rparr>
      | color \<Rightarrow> \<lparr>type = color, name = name b, model = model b,
                    values = map_option (map (fround F)) (values b),
                    colorType = Some (colorTypeOr2 (colorType b))\<rparr>)"

subsection \<open>Notions for the hierarchical sort\<close>

text \<open>
  The enclosing groups of every block of a flat sequence, innermost first: \<open>nesting ctx bs\<close>
  pairs each block with the \<open>groupStart\<close> blocks that are open where it stands, for a scan
  that starts inside \<open>ctx\<close>. The depth of a block is the number of its enclosing groups.
\<close>

fun nesting :: "real Block list \<Rightarrow> real Block list \<Rightarrow> (real Block \<times> real Block list) list" where
  "nesting ctx [] = []"
| "nesting ctx (b # bs) =
     (case type b of
        groupStart \<Rightarrow> (b, ctx) # nesting (b # ctx) bs
      | groupEnd \<Rightarrow> (b, tl ctx) # nesting (tl ctx) bs
      | color \<Rightarrow> (b, ctx) # nesting ctx bs)"

text \<open>
  The blocks that a stack of frames holds, in the order in which they were read, and the
  enclosing groups of the blocks of a tree.
\<close>

definition frameBlocks :: "frame \<Rightarrow> real Block list" where
  "frameBlocks f = fst f # concat (map flatten (snd f))"

definition unwind :: "frame list \<Rightarrow> real Block list" where
  "unwind st = concat (map frameBlocks (rev st))"

fun nodeNesting :: "real Block list \<Rightarrow> TreeNode \<Rightarrow> (real Block \<times> real Block list) list" where
  "nodeNesting ctx (TreeNode b cs e) =
     (b, ctx) # concat (map (nodeNesting (b # ctx)) cs)
     @ (case e of None \<Rightarrow> [] | Some x \<Rightarrow> [(x, ctx)])"

text \<open>
  A node is closed when it is a colour leaf or a group with an end marker whose children
  are closed. At the top level a \<open>groupEnd\<close> without a group is a leaf as well. A stack is
  well formed when the frames above the root are groups with closed children and the
  root holds top-level items.
\<close>

fun closedNode :: "TreeNode \<Rightarrow> bool" where
  "closedNode (TreeNode b cs e) =
     (case type b of
        groupStart \<Rightarrow> (case e of None \<Rightarrow> False | Some x \<Rightarrow> type x = groupEnd) \<and> list_all closedNode cs
      | groupEnd \<Rightarrow> False
      | color \<Rightarrow> cs = [] \<and> e = None)"

definition rootItem :: "TreeNode \<Rightarrow> bool" where
  "rootItem n = (closedNode n \<or> (type (block n) = groupEnd \<and> children n = [] \<and> endBlock n = None))"

fun wfStack :: "frame list \<Rightarrow> bool" where
  "wfStack [] = False"
| "wfStack [(r, cs)] = list_all rootItem cs"
| "wfStack ((g, cs) # f # fs) = (type g = groupStart \<and> list_all closedNode cs \<and> wfStack (f # fs))"

text \<open>The hue, saturation and lightness by which \<open>compareColors\<close> orders a block.\<close>

definition hslOf :: "Env \<Rightarrow> real Block \<Rightarrow> real \<times> real \<times> real" where
  "hslOf env a = getHSL (blockToRgb env a ! 0) (blockToRgb env a ! 1) (blockToRgb env a ! 2)"

subsection \<open>Sample data\<close>

text \<open>
  A reference library with the single entry \<open>Red\<close>, a colour engine that has not been
  initialised, and the comparison of strings by code units in place of the comparison
  of the locale. The arithmetic of the sample environment is exact: the identity
  is a rounding with the properties of \<open>ieeeDouble\<close>.
\<close>

definition sampleEntry :: PantoneEntry where
  "sampleEntry = \<lparr>Hex = str ''#FF0000'', R = str ''255'', G = str ''0'', B = str ''0'',
                   C = str ''0'', M = str ''100'', Y = str ''100'', K = str ''0''\<rparr>"

definition codeUnitCompare :: "jsstring \<Rightarrow> jsstring \<Rightarrow> int" where
  "codeUnitCompare a b = (if a = b then 0 else if a < b then - 1 else 1)"

definition sampleEnv :: Env where
  "sampleEnv = \<lparr>getOfficialEntry = (\<lambda>n. if n = str ''Red'' then Some sampleEntry else None),
                 getOfficialHex = (\<lambda>n. None),
                 isReady = False, cmykTransform = 0,
                 doTransform = (\<lambda>bs. None),
                 localeCompare = codeUnitCompare,
                 rounding = (\<lambda>x. x),
                 mathPow = (\<lambda>x y. if y = 3 then x ^ 3 else x powr y),
                 labOverflow = (\<lambda>L a b. [0, 0, 0])\<rparr>"

definition sampleColor :: "string \<Rightarrow> string \<Rightarrow> real list \<Rightarrow> real Block" where
  "sampleColor nm mdl vs =
     \<lparr>type = color, name = Some (str nm), model = Some (str mdl), values = Some vs,
      colorType = Some 2\<rparr>"

definition sampleGroup :: "string \<Rightarrow> real Block" where
  "sampleGroup nm =
     \<lparr>type = groupStart, name = Some (str nm), model = None, values = None, colorType = None\<rparr>"

definition sampleEnd :: "real Block" where
  "sampleEnd = \<lparr>type = groupEnd, name = None, model = None, values = None, colorType = None\<rparr>"

section \<open>Properties of the codec\<close>

subsection \<open>Evaluation and auxiliary facts\<close>

lemma bindE_simps:
  "bindE (Inl e) f = Inl e" "bindE (Inr x) f = f x"
  by (simp_all add: bindE_def)

lemma getChar_unfold:
  "getChar view off n =
     (if n = 0 then Inr []
      else bindE (getUint8 view off) (\<lambda>c.
           bindE (getChar view (off + 1) (n - 1)) (\<lambda>s. Inr (of_nat c # s))))"
  by (cases n) simp_all

lemma getUTF16Units_unfold:
  "getUTF16Units view off n =
     (if n = 0 then Inr []
      else bindE (getUint16 view off) (\<lambda>c.
           bindE (getUTF16Units view (off + 2) (n - 1)) (\<lambda>s. Inr (of_nat c # s))))"
  by (cases n) simp_all

lemma getFloats_unfold:
  "getFloats F view off n =
     (if n = 0 then Inr []
      else bindE (getFloat32 F view off) (\<lambda>v.
           bindE (getFloats F view (off + 4) (n - 1)) (\<lambda>vs. Inr (v # vs))))"
  by (cases n) simp_all

lemma parseBlocks_unfold:
  "parseBlocks F view n offset acc =
     (if n = 0 then Inr acc
      else bindE (parseBlock F view offset) (\<lambda>(ob, offset').
             parseBlocks F view (n - 1) offset' (case ob of None \<Rightarrow> acc | Some b \<Rightarrow> acc @ [b])))"
  by (cases n) simp_all

lemma getChar_take:
  "off + n \<le> length view \<Longrightarrow>
   getChar view off n = Inr (map (\<lambda>b. of_nat (unat b)) (take n (drop off view)))"
proof (induction n arbitrary: off)
  case 0
  show ?case by simp
next
  case (Suc n)
  then have "off < length view" by simp
  then have "drop off view = view ! off # drop (Suc off) view"
    by (simp add: Cons_nth_drop_Suc)
  with Suc show ?case
    by (simp add: getUint8_def bindE_simps)
qed

lemma getChar_short:
  "length view < off + n \<Longrightarrow> 0 < n \<Longrightarrow> getChar view off n = Inl RangeError"
proof (induction n arbitrary: off)
  case 0
  then show ?case by simp
next
  case (Suc n)
  show ?case
  proof (cases "off < length view")
    case True
    with Suc.prems have "length view < (off + 1) + n" "0 < n" by simp_all
    then have "getChar view (off + 1) n = Inl RangeError" by (rule Suc.IH)
    then show ?thesis by (simp add: getUint8_def bindE_simps True)
  next
    case False
    then show ?thesis by (simp add: getUint8_def bindE_simps)
  qed
qed

lemma unat_byte_less: "unat (b :: byte) < 256"
  using unsigned_less [of b, where 'a = nat] by simp

lemma unat_ucast_byte: "unat (ucast (b :: byte) :: 16 word) = unat b"
proof -
  have "unat b < 65536" using unat_byte_less [of b] by simp
  then show ?thesis by (simp add: unsigned_ucast_eq take_bit_eq_mod)
qed

lemma byte_to_unit_inj: "inj (\<lambda>b::byte. (of_nat (unat b) :: 16 word))"
proof (rule injI)
  fix x y :: byte
  assume "(of_nat (unat x) :: 16 word) = of_nat (unat y)"
  then have "unat (ucast x :: 16 word) = unat (ucast y :: 16 word)"
    by simp
  then have "unat x = unat y"
    by (simp only: unat_ucast_byte)
  then show "x = y" by (rule word_unat_eq_iff [THEN iffD2])
qed

lemma signature_bytes: "map (\<lambda>b::byte. (of_nat (unat b) :: 16 word)) (strToBytes (str ''ASEF'')) = str ''ASEF''"
  by (simp add: strToBytes_def str_def)

lemma bindE_eq_Inr:
  "bindE m f = Inr r \<Longrightarrow> (\<And>x. m = Inr x \<Longrightarrow> f x = Inr r \<Longrightarrow> P) \<Longrightarrow> P"
  by (cases m) (simp_all add: bindE_simps)

lemma parseBlock_end:
  assumes "parseBlock F view off = Inr (ob, cursor)"
      and "getUint32 view (off + 2) = Inr blockLen"
  shows "cursor = off + 6 + blockLen"
proof -
  from assms(1) obtain blockType where t: "getUint16 view off = Inr blockType"
    unfolding parseBlock_def by (elim bindE_eq_Inr)
  consider "blockType = 0xC001" | "blockType = 0xC002" | "blockType = 0x0001"
    | "blockType \<noteq> 0xC001" "blockType \<noteq> 0xC002" "blockType \<noteq> 0x0001"
    by blast
  then show ?thesis
  proof cases
    case 1
    with assms t show ?thesis
      unfolding parseBlock_def
      by (simp add: bindE_simps Let_def) (elim bindE_eq_Inr, simp)
  next
    case 2
    with assms t show ?thesis
      unfolding parseBlock_def by (simp add: bindE_simps Let_def)
  next
    case 3
    with assms t show ?thesis
      unfolding parseBlock_def
      by (simp add: bindE_simps Let_def) (elim bindE_eq_Inr, simp)
  next
    case 4
    with assms t show ?thesis
      unfolding parseBlock_def by (simp add: bindE_simps Let_def)
  qed
qed

lemma parseBlock_unknown:
  assumes "getUint16 view off = Inr blockType"
      and "getUint32 view (off + 2) = Inr blockLen"
      and "blockType \<notin> {0xC001, 0xC002, 0x0001}"
  shows "parseBlock F view off = Inr (None, off + 6 + blockLen)"
  using assms unfolding parseBlock_def by (simp add: bindE_simps Let_def)


subsection \<open>Wrong signature\<close>

text \<open>
  Claim C7. A buffer whose first four bytes are not the ASCII signature \<open>ASEF\<close> is
  rejected: \<open>parseASE\<close> returns an error and no document. When the buffer has four bytes
  or more the error is the one \<open>parseASE\<close> throws for the signature; a shorter buffer
  fails already in the read of the signature, with the \<open>RangeError\<close> of the \<open>DataView\<close>.
\<close>

theorem parseASE_bad_signature:
  assumes "take 4 buffer \<noteq> strToBytes (str ''ASEF'')"
  shows "parseASE F buffer = Inl (if length buffer < 4 then RangeError else InvalidSignature)"
proof (cases "length buffer < 4")
  case True
  then show ?thesis
    by (simp add: parseASE_def getChar_short bindE_simps)
next
  case False
  have "map (\<lambda>b::byte. (of_nat (unat b) :: 16 word)) (take 4 buffer) \<noteq> str ''ASEF''"
  proof
    assume "map (\<lambda>b::byte. (of_nat (unat b) :: 16 word)) (take 4 buffer) = str ''ASEF''"
    then have "map (\<lambda>b::byte. (of_nat (unat b) :: 16 word)) (take 4 buffer)
             = map (\<lambda>b::byte. (of_nat (unat b) :: 16 word)) (strToBytes (str ''ASEF''))"
      by (simp only: signature_bytes)
    then have "take 4 buffer = strToBytes (str ''ASEF'')"
      using byte_to_unit_inj by (simp only: inj_map_eq_map)
    with assms show False by simp
  qed
  with False show ?thesis
    by (simp add: parseASE_def getChar_take bindE_simps)
qed


theorem parseASE_bad_signature_witness:
  "take 4 (strToBytes (str ''ASEX'') @ [0, 1, 0, 0, 0, 0, 0, 0]) \<noteq> strToBytes (str ''ASEF'')
   \<and> parseASE \<lparr>toBits = id, ofBits = id :: 32 word \<Rightarrow> 32 word\<rparr>
        (strToBytes (str ''ASEX'') @ [0, 1, 0, 0, 0, 0, 0, 0]) = Inl InvalidSignature"
proof -
  have h: "take 4 (strToBytes (str ''ASEX'') @ [0, 1, 0, 0, 0, 0, 0, 0]) \<noteq> strToBytes (str ''ASEF'')"
    by (simp add: strToBytes_def str_def)
  show ?thesis
    using h parseASE_bad_signature [OF h, of "\<lparr>toBits = id, ofBits = id\<rparr>"]
    by (simp add: strToBytes_def str_def)
qed



subsection \<open>The cursor after a block\<close>

text \<open>
  Claim C8. Let the header of a block be readable at \<open>off\<close>, with block type
  \<open>blockType\<close> and declared length \<open>blockLen\<close>. Then the loop of \<open>parseASE\<close> goes on at
  \<open>off + 6 + blockLen\<close>, whatever cursor the parsing of the fields has reached (or it
  fails, when a field lies outside the buffer). A block of unknown type adds no block
  to the document, never fails, and the remaining blocks are decoded from
  \<open>off + 6 + blockLen\<close> on.
\<close>

theorem parseASE_resumes_at_declared_end:
  assumes "getUint16 view off = Inr blockType"
      and "getUint32 view (off + 2) = Inr blockLen"
  shows "parseBlocks F view (Suc n) off acc =
           (case parseBlock F view off of
              Inl e \<Rightarrow> Inl e
            | Inr (ob, cursor) \<Rightarrow>
                parseBlocks F view n (off + 6 + blockLen)
                  (case ob of None \<Rightarrow> acc | Some b \<Rightarrow> acc @ [b]))
       \<and> (blockType \<notin> {0xC001, 0xC002, 0x0001} \<longrightarrow>
            parseBlock F view off = Inr (None, off + 6 + blockLen)
          \<and> parseBlocks F view (Suc n) off acc = parseBlocks F view n (off + 6 + blockLen) acc)"
proof (intro conjI impI)
  show "parseBlocks F view (Suc n) off acc =
           (case parseBlock F view off of
              Inl e \<Rightarrow> Inl e
            | Inr (ob, cursor) \<Rightarrow>
                parseBlocks F view n (off + 6 + blockLen)
                  (case ob of None \<Rightarrow> acc | Some b \<Rightarrow> acc @ [b]))"
  proof (cases "parseBlock F view off")
    case (Inl e)
    then show ?thesis by (simp add: bindE_simps)
  next
    case (Inr p)
    obtain ob cursor where p: "p = (ob, cursor)" by (cases p)
    with Inr assms(2) have "cursor = off + 6 + blockLen"
      by (simp add: parseBlock_end)
    with Inr p show ?thesis by (simp add: bindE_simps)
  qed
next
  assume u: "blockType \<notin> {0xC001, 0xC002, 0x0001}"
  show "parseBlock F view off = Inr (None, off + 6 + blockLen)"
    using assms u by (rule parseBlock_unknown)
  then show "parseBlocks F view (Suc n) off acc = parseBlocks F view n (off + 6 + blockLen) acc"
    by (simp add: bindE_simps)
qed

theorem parseASE_resumes_at_declared_end_witness:
  "getUint16 (u16 0x1234 @ u32 2 @ [0xAA, 0xBB] @ u16 0xC002 @ u32 0) 0 = Inr 0x1234
   \<and> getUint32 (u16 0x1234 @ u32 2 @ [0xAA, 0xBB] @ u16 0xC002 @ u32 0) (0 + 2) = Inr 2
   \<and> 0x1234 \<notin> {0xC001, 0xC002, 0x0001 :: nat}
   \<and> parseBlock \<lparr>toBits = id, ofBits = id :: 32 word \<Rightarrow> 32 word\<rparr>
         (u16 0x1234 @ u32 2 @ [0xAA, 0xBB] @ u16 0xC002 @ u32 0) 0 = Inr (None, 0 + 6 + 2)
   \<and> parseBlocks \<lparr>toBits = id, ofBits = id :: 32 word \<Rightarrow> 32 word\<rparr>
         (u16 0x1234 @ u32 2 @ [0xAA, 0xBB] @ u16 0xC002 @ u32 0) (Suc 1) 0 []
       = parseBlocks \<lparr>toBits = id, ofBits = id\<rparr>
         (u16 0x1234 @ u32 2 @ [0xAA, 0xBB] @ u16 0xC002 @ u32 0) 1 (0 + 6 + 2) []"
proof -
  let ?view = "u16 0x1234 @ u32 2 @ [0xAA, 0xBB] @ u16 0xC002 @ u32 0"
  have h1: "getUint16 ?view 0 = Inr 0x1234"
    by (simp add: getUint16_def u16_def u32_def)
  have h2: "getUint32 ?view (0 + 2) = Inr 2"
    by (simp add: getUint32_def u16_def u32_def)
  have h3: "0x1234 \<notin> {0xC001, 0xC002, 0x0001 :: nat}" by simp
  note t = parseASE_resumes_at_declared_end
             [OF h1 h2, of "\<lparr>toBits = id, ofBits = id\<rparr>" 1 "[]"]
  from t h3 h1 h2 show ?thesis by blast
qed

subsection \<open>Encoding followed by decoding\<close>

paragraph \<open>Fields written and read back\<close>

lemma length_u16 [simp]: "length (u16 v) = 2" by (simp add: u16_def)
lemma length_u32 [simp]: "length (u32 v) = 4" by (simp add: u32_def)
lemma length_strToBytes [simp]: "length (strToBytes s) = length s" by (simp add: strToBytes_def)
lemma length_strToUTF16Bytes [simp]: "length (strToUTF16Bytes s) = 2 * length s"
  by (induction s) (simp_all add: strToUTF16Bytes_def)
lemma length_floatBytes [simp]: "length (floatBytes F vs) = 4 * length vs"
  by (induction vs) (simp_all add: floatBytes_def)

lemma unat_of_nat_byte: "unat (of_nat n :: byte) = n mod 256"
  by (simp add: unat_of_nat)

lemma split16: "256 * (v div 256 mod 256) + v mod 256 = v mod 65536" for v :: nat
  using mod_mult2_eq [of v 256 256] by simp

lemma split32:
  "16777216 * (v div 16777216 mod 256) + 65536 * (v div 65536 mod 256)
   + 256 * (v div 256 mod 256) + v mod 256 = v mod 4294967296" for v :: nat
proof -
  have a: "v mod 4294967296 = 65536 * (v div 65536 mod 65536) + v mod 65536"
    using mod_mult2_eq [of v 65536 65536] by simp
  have b: "v div 65536 mod 65536 = 256 * (v div 65536 div 256 mod 256) + v div 65536 mod 256"
    using split16 [of "v div 65536"] by simp
  have c: "v div 65536 div 256 = v div 16777216"
    by (simp add: div_mult2_eq [symmetric])
  show ?thesis
    unfolding a b c using split16 [of v] by simp
qed

lemma getUint16_u16: "getUint16 (u16 v @ rest) 0 = Inr (v mod 65536)"
  by (simp add: getUint16_def u16_def unat_of_nat_byte split16)

lemma getUint32_u32: "getUint32 (u32 v @ rest) 0 = Inr (v mod 4294967296)"
  by (simp add: getUint32_def u32_def unat_of_nat_byte split32)

lemma getUint8_append: "getUint8 (xs @ ys) (length xs + k) = getUint8 ys k"
  by (simp add: getUint8_def nth_append)

lemma getUint16_append: "getUint16 (xs @ ys) (length xs + k) = getUint16 ys k"
  by (simp add: getUint16_def nth_append add.assoc)

lemma getUint32_append: "getUint32 (xs @ ys) (length xs + k) = getUint32 ys k"
  by (simp add: getUint32_def nth_append add.assoc)

lemma getFloat32_append: "getFloat32 F (xs @ ys) (length xs + k) = getFloat32 F ys k"
  by (simp add: getFloat32_def getUint32_append)

lemma getChar_append: "getChar (xs @ ys) (length xs + k) n = getChar ys k n"
proof (induction n arbitrary: k)
  case 0
  show ?case by simp
next
  case (Suc n)
  have "getChar (xs @ ys) (length xs + k + 1) n = getChar ys (k + 1) n"
    using Suc.IH [of "k + 1"] by (simp only: add.assoc)
  then show ?case by (simp only: getChar.simps getUint8_append)
qed

lemma getUTF16Units_append: "getUTF16Units (xs @ ys) (length xs + k) n = getUTF16Units ys k n"
proof (induction n arbitrary: k)
  case 0
  show ?case by simp
next
  case (Suc n)
  have "getUTF16Units (xs @ ys) (length xs + k + 2) n = getUTF16Units ys (k + 2) n"
    using Suc.IH [of "k + 2"] by (simp only: add.assoc)
  then show ?case by (simp only: getUTF16Units.simps getUint16_append)
qed

lemma getFloats_append: "getFloats F (xs @ ys) (length xs + k) n = getFloats F ys k n"
proof (induction n arbitrary: k)
  case 0
  show ?case by simp
next
  case (Suc n)
  have "getFloats F (xs @ ys) (length xs + k + 4) n = getFloats F ys (k + 4) n"
    using Suc.IH [of "k + 4"] by (simp only: add.assoc)
  then show ?case by (simp only: getFloats.simps getFloat32_append)
qed

lemma word_of_nat_unat_id: "(of_nat (unat c) :: 16 word) = c"
  by simp

lemma unat_unit_less: "unat (c :: 16 word) < 65536"
  using unsigned_less [of c, where 'a = nat] by simp

lemma getUTF16Units_written:
  "getUTF16Units (strToUTF16Bytes s @ rest) 0 (length s) = Inr s"
proof (induction s)
  case Nil
  show ?case by simp
next
  case (Cons c s)
  have "strToUTF16Bytes (c # s) @ rest = u16 (unat c) @ (strToUTF16Bytes s @ rest)"
    by (simp add: strToUTF16Bytes_def)
  moreover have "getUTF16Units (u16 (unat c) @ (strToUTF16Bytes s @ rest)) (0 + 2) (length s)
               = getUTF16Units (strToUTF16Bytes s @ rest) 0 (length s)"
    using getUTF16Units_append [of "u16 (unat c)" "strToUTF16Bytes s @ rest" 0 "length s"]
    by (simp only: length_u16 add_0 add_0_right)
  ultimately show ?case
    using unat_unit_less [of c]
    by (simp only: length_Cons getUTF16Units.simps getUint16_u16 bindE_simps Cons.IH mod_less word_of_nat_unat_id)
qed

lemma getFloats_written:
  "getFloats F (floatBytes F vs @ rest) 0 (length vs) = Inr (map (fround F) vs)"
proof (induction vs)
  case Nil
  show ?case by simp
next
  case (Cons v vs)
  have e: "floatBytes F (v # vs) @ rest = u32 (unat (toBits F v)) @ (floatBytes F vs @ rest)"
    by (simp add: floatBytes_def)
  have "unat (toBits F v) < 4294967296"
    using unsigned_less [of "toBits F v", where 'a = nat] by simp
  then have f: "getFloat32 F (u32 (unat (toBits F v)) @ (floatBytes F vs @ rest)) 0 = Inr (fround F v)"
    by (simp add: getFloat32_def getUint32_u32 bindE_simps fround_def)
  have "getFloats F (u32 (unat (toBits F v)) @ (floatBytes F vs @ rest)) (0 + 4) (length vs)
      = getFloats F (floatBytes F vs @ rest) 0 (length vs)"
    using getFloats_append [of F "u32 (unat (toBits F v))" "floatBytes F vs @ rest" 0 "length vs"]
    by (simp only: length_u32 add_0 add_0_right)
  then show ?case
    unfolding e by (simp only: length_Cons getFloats.simps f bindE_simps Cons.IH list.map)
qed

lemma tag_bytes:
  assumes "isModelTag m"
  shows "getChar (strToBytes m @ rest) 0 4 = Inr m"
proof -
  have "0 + 4 \<le> length (strToBytes m @ rest)"
    using assms by (auto simp: isModelTag_def str_def)
  then have "getChar (strToBytes m @ rest) 0 4
      = Inr (map (\<lambda>b. of_nat (unat b)) (take 4 (drop 0 (strToBytes m @ rest))))"
    by (rule getChar_take)
  moreover have "map (\<lambda>b::byte. (of_nat (unat b) :: 16 word)) (take 4 (strToBytes m @ rest)) = m"
    using assms by (auto simp: isModelTag_def str_def strToBytes_def)
  ultimately show ?thesis by simp
qed

lemma strToUTF16Bytes_terminated:
  "strToUTF16Bytes (nm @ [0]) = strToUTF16Bytes nm @ u16 0"
  by (simp add: strToUTF16Bytes_def)

lemma read_name:
  assumes "length pre = off" and "length nm < 65535"
  shows "getUint16 (pre @ u16 (length nm + 1) @ strToUTF16Bytes (nm @ [0]) @ rest) off
           = Inr (length nm + 1)"
    and "getUTF16String (pre @ u16 (length nm + 1) @ strToUTF16Bytes (nm @ [0]) @ rest)
           (off + 2) (length nm + 1) = Inr nm"
proof -
  let ?tail = "strToUTF16Bytes (nm @ [0]) @ rest"
  have "getUint16 (pre @ (u16 (length nm + 1) @ ?tail)) (length pre + 0) = getUint16 (u16 (length nm + 1) @ ?tail) 0"
    by (rule getUint16_append)
  then show "getUint16 (pre @ u16 (length nm + 1) @ ?tail) off = Inr (length nm + 1)"
    using assms by (simp add: getUint16_u16)
  have "getUTF16Units ((pre @ u16 (length nm + 1)) @ (strToUTF16Bytes nm @ (u16 0 @ rest)))
          (length (pre @ u16 (length nm + 1)) + 0) (length nm)
        = getUTF16Units (strToUTF16Bytes nm @ (u16 0 @ rest)) 0 (length nm)"
    by (rule getUTF16Units_append)
  then show "getUTF16String (pre @ u16 (length nm + 1) @ ?tail) (off + 2) (length nm + 1) = Inr nm"
    using assms(1)
    by (simp add: getUTF16String_def strToUTF16Bytes_terminated getUTF16Units_written)
qed

lemma read_header:
  assumes "t < 65536" and "l < 4294967296"
  shows "getUint16 (u16 t @ u32 l @ rest) 0 = Inr t"
    and "getUint32 (u16 t @ u32 l @ rest) 2 = Inr l"
proof -
  show "getUint16 (u16 t @ u32 l @ rest) 0 = Inr t"
    using assms(1) by (simp add: getUint16_u16)
  have "getUint32 (u16 t @ (u32 l @ rest)) (length (u16 t) + 0) = getUint32 (u32 l @ rest) 0"
    by (rule getUint32_append)
  then show "getUint32 (u16 t @ u32 l @ rest) 2 = Inr l"
    using assms(2) by (simp add: getUint32_u32 del: add_2_eq_Suc add_2_eq_Suc')
qed

lemma parseBlock_groupStart:
  assumes "type b = groupStart" and "name b = Some nm" and "nm \<noteq> []" and "length nm < 65535"
  shows "parseBlock F (encodeBlock F b @ rest) 0
       = Inr (Some (decoded F b), length (encodeBlock F b))"
proof -
  define l where "l = 2 + 2 * (length nm + 1)"
  have e: "encodeBlock F b = u16 0xC001 @ u32 l @ u16 (length nm + 1) @ strToUTF16Bytes (nm @ [0])"
    using assms(1-3) by (simp add: encodeBlock_def truthy_def Let_def l_def)
  have lb: "l < 4294967296" using assms(4) by (simp add: l_def)
  let ?V = "u16 0xC001 @ u32 l @ u16 (length nm + 1) @ strToUTF16Bytes (nm @ [0]) @ rest"
  have h: "getUint16 ?V 0 = Inr 0xC001" "getUint32 ?V 2 = Inr l"
    using read_header [of "0xC001" l, OF _ lb] by simp_all
  have n: "getUint16 ((u16 0xC001 @ u32 l) @ u16 (length nm + 1) @ strToUTF16Bytes (nm @ [0]) @ rest) 6
             = Inr (length nm + 1)"
    "getUTF16String ((u16 0xC001 @ u32 l) @ u16 (length nm + 1) @ strToUTF16Bytes (nm @ [0]) @ rest)
       8 (length nm + 1) = Inr nm"
    using read_name [of "u16 0xC001 @ u32 l" 6 nm rest, OF _ assms(4)] by simp_all
  have "parseBlock F ?V 0 =
          Inr (Some \<lparr>type = groupStart, name = Some nm, model = None, values = None,
                     colorType = None\<rparr>, 0 + 6 + l)"
    unfolding parseBlock_def using h n
    by (simp add: bindE_simps Let_def del: add_2_eq_Suc add_2_eq_Suc')
  then show ?thesis
    using assms(1,2) by (simp add: e decoded_def l_def)
qed

lemma parseBlock_groupEnd:
  assumes "type b = groupEnd"
  shows "parseBlock F (encodeBlock F b @ rest) 0
       = Inr (Some (decoded F b), length (encodeBlock F b))"
proof -
  have e: "encodeBlock F b = u16 0xC002 @ u32 0"
    using assms by (simp add: encodeBlock_def)
  have h: "getUint16 (u16 0xC002 @ u32 0 @ rest) 0 = Inr 0xC002"
    "getUint32 (u16 0xC002 @ u32 0 @ rest) 2 = Inr 0"
    using read_header [of "0xC002" 0] by simp_all
  have "parseBlock F (u16 0xC002 @ u32 0 @ rest) 0 =
          Inr (Some \<lparr>type = groupEnd, name = None, model = None, values = None,
                     colorType = None\<rparr>, 0 + 6 + 0)"
    unfolding parseBlock_def using h
    by (simp add: bindE_simps Let_def del: add_2_eq_Suc add_2_eq_Suc')
  then show ?thesis
    using assms by (simp add: e decoded_def)
qed


lemma stripNul_id: "0 \<notin> set nm \<Longrightarrow> stripNul nm = nm"
  by (induction nm) (auto simp: stripNul_def)

lemma colorTypeOr2_less: "(case ct of None \<Rightarrow> True | Some n \<Rightarrow> n < 65536) \<Longrightarrow> colorTypeOr2 ct < 65536"
  by (auto simp: colorTypeOr2_def split: option.splits)

lemma isModelTag_length: "isModelTag m \<Longrightarrow> length m = 4 \<and> m \<noteq> []"
  by (auto simp: isModelTag_def str_def)

lemma parseBlock_color:
  assumes "type b = color" and "name b = Some nm" and "nm \<noteq> []" and "length nm < 65535"
      and "0 \<notin> set nm" and "model b = Some m" and "isModelTag m"
      and "values b = Some vs" and "length vs = numChannels m"
      and "case colorType b of None \<Rightarrow> True | Some ct \<Rightarrow> ct < 65536"
  shows "parseBlock F (encodeBlock F b @ rest) 0
       = Inr (Some (decoded F b), length (encodeBlock F b))"
proof -
  define c where "c = colorTypeOr2 (colorType b)"
  define l where "l = 2 + 2 * (length nm + 1) + 4 + length vs * 4 + 2"
  note ml = isModelTag_length [OF assms(7)]
  have ch: "numChannels m \<le> 4" by (simp add: numChannels_def)
  have lb: "l < 4294967296" using assms(4,9) ch by (simp add: l_def)
  have cb: "c < 65536" unfolding c_def using assms(10) by (rule colorTypeOr2_less)
  have e: "encodeBlock F b = u16 0x0001 @ u32 l @ u16 (length nm + 1) @ strToUTF16Bytes (nm @ [0])
             @ strToBytes m @ floatBytes F vs @ u16 c"
    using assms(1,2,3,6,8) ml
    by (simp add: encodeBlock_def truthy_def orElse_def Let_def l_def c_def)
  let ?V = "u16 0x0001 @ u32 l @ u16 (length nm + 1) @ strToUTF16Bytes (nm @ [0])
             @ strToBytes m @ floatBytes F vs @ u16 c @ rest"
  let ?P1 = "u16 0x0001 @ u32 l @ u16 (length nm + 1) @ strToUTF16Bytes (nm @ [0])"
  let ?P2 = "?P1 @ strToBytes m"
  let ?P3 = "?P2 @ floatBytes F vs"
  have h: "getUint16 ?V 0 = Inr 0x0001" "getUint32 ?V 2 = Inr l"
    using read_header [of "0x0001" l, OF _ lb] by simp_all
  have n: "getUint16 ?V 6 = Inr (length nm + 1)"
    "getUTF16String ?V 8 (length nm + 1) = Inr nm"
    using read_name [of "u16 0x0001 @ u32 l" 6 nm "strToBytes m @ floatBytes F vs @ u16 c @ rest",
            OF _ assms(4)]
    by simp_all
  have "getChar (?P1 @ (strToBytes m @ floatBytes F vs @ u16 c @ rest)) (length ?P1 + 0) 4
      = getChar (strToBytes m @ floatBytes F vs @ u16 c @ rest) 0 4"
    by (rule getChar_append)
  then have rm: "off = length ?P1 \<Longrightarrow> getChar ?V off 4 = Inr m" for off
    by (simp add: tag_bytes [OF assms(7)])
  have "getFloats F (?P2 @ (floatBytes F vs @ u16 c @ rest)) (length ?P2 + 0) (length vs)
      = getFloats F (floatBytes F vs @ u16 c @ rest) 0 (length vs)"
    by (rule getFloats_append)
  then have rf: "off = length ?P2 \<Longrightarrow> getFloats F ?V off (length vs) = Inr (map (fround F) vs)" for off
    by (simp add: getFloats_written)
  have "getUint16 (?P3 @ (u16 c @ rest)) (length ?P3 + 0) = getUint16 (u16 c @ rest) 0"
    by (rule getUint16_append)
  then have rc: "off = length ?P3 \<Longrightarrow> getUint16 ?V off = Inr c" for off
    using cb by (simp add: getUint16_u16)
  have rm': "getChar ?V (10 + length nm * 2) 4 = Inr m"
    by (rule rm) simp
  have rf': "getFloats F ?V (14 + length nm * 2) (length vs) = Inr (map (fround F) vs)"
    by (rule rf) (simp add: ml)
  have rc': "getUint16 ?V (14 + length nm * 2 + 4 * length vs) = Inr c"
    by (rule rc) (simp add: ml)
  have "parseBlock F ?V 0 =
          Inr (Some \<lparr>type = color, name = Some nm, model = Some m,
                     values = Some (map (fround F) vs), colorType = Some c\<rparr>, 0 + 6 + l)"
    unfolding parseBlock_def using h n rm' rf' rc'
    by (simp add: bindE_simps Let_def assms(9) [symmetric] stripNul_id [OF assms(5)]
          del: add_2_eq_Suc add_2_eq_Suc')
  then show ?thesis
    using assms(1,2,6,8) ml by (simp add: e decoded_def l_def c_def)
qed

lemma parseBlock_written:
  assumes "validBlock b"
  shows "parseBlock F (encodeBlock F b @ rest) 0
       = Inr (Some (decoded F b), length (encodeBlock F b))"
proof (cases "type b")
  case groupStart
  with assms obtain nm where "name b = Some nm" "nm \<noteq> []" "length nm < 65535"
    by (auto simp: validBlock_def split: option.splits)
  with groupStart show ?thesis by (rule parseBlock_groupStart)
next
  case groupEnd
  then show ?thesis by (rule parseBlock_groupEnd)
next
  case color
  with assms obtain nm m vs where "name b = Some nm" "nm \<noteq> []" "length nm < 65535" "0 \<notin> set nm"
    "model b = Some m" "isModelTag m" "values b = Some vs" "length vs = numChannels m"
    "case colorType b of None \<Rightarrow> True | Some ct \<Rightarrow> ct < 65536"
    by (auto simp: validBlock_def split: option.splits)
  with color show ?thesis by (rule parseBlock_color)
qed

lemma getUint16_skip: "length xs \<le> off \<Longrightarrow> getUint16 (xs @ ys) off = getUint16 ys (off - length xs)"
  using getUint16_append [of xs ys "off - length xs"] by simp

lemma getUint32_skip: "length xs \<le> off \<Longrightarrow> getUint32 (xs @ ys) off = getUint32 ys (off - length xs)"
  using getUint32_append [of xs ys "off - length xs"] by simp

lemma getChar_skip: "length xs \<le> off \<Longrightarrow> getChar (xs @ ys) off n = getChar ys (off - length xs) n"
  using getChar_append [of xs ys "off - length xs" n] by simp

lemma getUTF16Units_skip:
  "length xs \<le> off \<Longrightarrow> getUTF16Units (xs @ ys) off n = getUTF16Units ys (off - length xs) n"
  using getUTF16Units_append [of xs ys "off - length xs" n] by simp

lemma getFloats_skip:
  "length xs \<le> off \<Longrightarrow> getFloats F (xs @ ys) off n = getFloats F ys (off - length xs) n"
  using getFloats_append [of F xs ys "off - length xs" n] by simp

lemma bindE_map_sum: "map_sum id g (bindE m f) = bindE m (\<lambda>x. map_sum id g (f x))"
  by (cases m) (simp_all add: bindE_simps)

lemma parseBlock_shift:
  "parseBlock F (pre @ view) (length pre)
   = map_sum id (\<lambda>(ob, cursor). (ob, length pre + cursor)) (parseBlock F view 0)"
  unfolding parseBlock_def
  by (simp add: bindE_map_sum Let_def getUTF16String_def add.assoc
        if_distrib [where f = "map_sum id (\<lambda>(ob, cursor). (ob, length pre + cursor))"]
        getUint16_skip getUint32_skip getChar_skip getUTF16Units_skip getFloats_skip
        del: add_2_eq_Suc add_2_eq_Suc' cong: if_cong)

lemma parseBlock_at:
  assumes "validBlock b"
  shows "parseBlock F (pre @ encodeBlock F b @ rest) (length pre)
       = Inr (Some (decoded F b), length pre + length (encodeBlock F b))"
  using parseBlock_shift [of F pre "encodeBlock F b @ rest"]
  by (simp add: parseBlock_written [OF assms])

lemma parseBlocks_written:
  "list_all validBlock bs \<Longrightarrow>
   parseBlocks F (pre @ concat (map (encodeBlock F) bs)) (length bs) (length pre) acc
   = Inr (acc @ map (decoded F) bs)"
proof (induction bs arbitrary: pre acc)
  case Nil
  show ?case by simp
next
  case (Cons b bs)
  then have v: "validBlock b" and vs: "list_all validBlock bs" by simp_all
  have "parseBlocks F ((pre @ encodeBlock F b) @ concat (map (encodeBlock F) bs)) (length bs)
          (length (pre @ encodeBlock F b)) (acc @ [decoded F b])
        = Inr ((acc @ [decoded F b]) @ map (decoded F) bs)"
    using vs by (rule Cons.IH)
  then show ?case
    using parseBlock_at [OF v, of F pre "concat (map (encodeBlock F) bs)"]
    by (simp add: bindE_simps)
qed

lemma header_reads:
  assumes "v0 < 65536" "v1 < 65536" "n < 4294967296"
  shows "getChar (strToBytes (str ''ASEF'') @ u16 v0 @ u16 v1 @ u32 n @ rest) 0 4 = Inr (str ''ASEF'')"
    and "getUint16 (strToBytes (str ''ASEF'') @ u16 v0 @ u16 v1 @ u32 n @ rest) 4 = Inr v0"
    and "getUint16 (strToBytes (str ''ASEF'') @ u16 v0 @ u16 v1 @ u32 n @ rest) 6 = Inr v1"
    and "getUint32 (strToBytes (str ''ASEF'') @ u16 v0 @ u16 v1 @ u32 n @ rest) 8 = Inr n"
proof -
  let ?S = "strToBytes (str ''ASEF'')"
  have ls: "length ?S = 4" by (simp add: str_def)
  show "getChar (?S @ u16 v0 @ u16 v1 @ u32 n @ rest) 0 4 = Inr (str ''ASEF'')"
    using getChar_take [of 0 4 "?S @ u16 v0 @ u16 v1 @ u32 n @ rest"]
    by (simp add: str_def strToBytes_def)
  show "getUint16 (?S @ u16 v0 @ u16 v1 @ u32 n @ rest) 4 = Inr v0"
    using getUint16_skip [of ?S 4 "u16 v0 @ u16 v1 @ u32 n @ rest"] ls assms(1)
    by (simp add: getUint16_u16)
  show "getUint16 (?S @ u16 v0 @ u16 v1 @ u32 n @ rest) 6 = Inr v1"
    using getUint16_skip [of "?S @ u16 v0" 6 "u16 v1 @ u32 n @ rest"] ls assms(2)
    by (simp add: getUint16_u16)
  show "getUint32 (?S @ u16 v0 @ u16 v1 @ u32 n @ rest) 8 = Inr n"
    using getUint32_skip [of "?S @ u16 v0 @ u16 v1" 8 "u32 n @ rest"] ls assms(3)
    by (simp add: getUint32_u32)
qed

lemma parseASE_createASEBuffer:
  assumes "validDocument d"
  shows "parseASE F (createASEBuffer F d)
       = Inr \<lparr>version = version d, blocks = map (decoded F) (blocks d)\<rparr>"
proof -
  let ?H = "strToBytes (str ''ASEF'') @ u16 (fst (version d)) @ u16 (snd (version d))
            @ u32 (length (blocks d))"
  from assms have b: "fst (version d) < 65536" "snd (version d) < 65536"
    "length (blocks d) < 4294967296" and v: "list_all validBlock (blocks d)"
    by (simp_all add: validDocument_def)
  have lh: "length ?H = 12" by (simp add: str_def)
  have "parseBlocks F (?H @ concat (map (encodeBlock F) (blocks d))) (length (blocks d))
          (length ?H) [] = Inr ([] @ map (decoded F) (blocks d))"
    using v by (rule parseBlocks_written)
  then have p: "parseBlocks F (createASEBuffer F d) (length (blocks d)) 12 []
             = Inr (map (decoded F) (blocks d))"
    unfolding lh by (simp add: createASEBuffer_def)
  note r = header_reads [OF b, of "concat (map (encodeBlock F) (blocks d))"]
  show ?thesis
    unfolding parseASE_def
    using r p by (simp add: createASEBuffer_def bindE_simps)
qed

text \<open>
  For a valid document the decoder returns the version pair, the same number of blocks of
  the same kinds, the names and models, and the channel values after their passage
  through the 32-bit field (lemma \<open>parseASE_createASEBuffer\<close>). The colour type comes
  back unchanged unless it was \<open>0\<close> or missing.
\<close>

lemma decoded_kind: "type (decoded F b) = type b"
  by (cases "type b") (simp_all add: decoded_def)

lemma decoded_colorType:
  "type b = color \<Longrightarrow> colorType b = Some ct \<Longrightarrow> ct \<noteq> 0 \<Longrightarrow> colorType (decoded F b) = Some ct"
  by (simp add: decoded_def colorTypeOr2_def)

lemma decoded_colorType_0:
  "type b = color \<Longrightarrow> colorType b = Some 0 \<Longrightarrow> colorType (decoded F b) = Some 2"
  by (simp add: decoded_def colorTypeOr2_def)

text \<open>
  A block with an empty name is not written at all, but it is counted in the header: the
  decoder then reads past the end of the buffer.
\<close>

lemma createASEBuffer_skips_unnamed_group:
  "parseASE F
     (createASEBuffer F
        \<lparr>version = (1, 0),
         blocks = [\<lparr>type = groupStart, name = Some [], model = None, values = None,
                    colorType = None\<rparr>]\<rparr>)
   = Inl RangeError"
proof -
  have enc: "createASEBuffer F
        \<lparr>version = (1, 0),
         blocks = [\<lparr>type = groupStart, name = Some [], model = None, values = None,
                    colorType = None\<rparr>]\<rparr>
     = [65, 83, 69, 70, 0, 1, 0, 0, 0, 0, 0, 1]"
    by (simp add: createASEBuffer_def encodeBlock_def str_def strToBytes_def u16_def u32_def
          truthy_def)
  show ?thesis
    unfolding enc
    by (simp add: parseASE_def getChar_unfold parseBlocks_unfold parseBlock_def
          getUint8_def getUint16_def getUint32_def bindE_simps str_def)
qed

text \<open>
  Claim C1. Decoding an encoded document does not always give back the colour type:
  \<open>createASEBuffer\<close> writes \<open>block.colorType || 2\<close>, so the colour type \<open>0\<close> (Global, which
  the editor assigns and \<open>parseASE\<close> reads) is written as \<open>2\<close>. The document below has
  one RGB colour of type \<open>0\<close>, its channel values given by their 32-bit patterns; after
  encoding and decoding the colour has type \<open>2\<close>.
\<close>

theorem createASEBuffer_drops_colorType_0:
  "parseASE \<lparr>toBits = id, ofBits = id\<rparr>
     (createASEBuffer \<lparr>toBits = id, ofBits = id\<rparr>
        \<lparr>version = (1, 0),
         blocks = [\<lparr>type = color, name = Some (str ''A''), model = Some (str ''RGB ''),
                    values = Some [0, 0, 0 :: 32 word], colorType = Some 0\<rparr>]\<rparr>)
   = Inr \<lparr>version = (1, 0),
         blocks = [\<lparr>type = color, name = Some (str ''A''), model = Some (str ''RGB ''),
                    values = Some [0, 0, 0], colorType = Some 2\<rparr>]\<rparr>"
proof -
  have enc: "createASEBuffer \<lparr>toBits = id, ofBits = id\<rparr>
        \<lparr>version = (1, 0),
         blocks = [\<lparr>type = color, name = Some (str ''A''), model = Some (str ''RGB ''),
                    values = Some [0, 0, 0 :: 32 word], colorType = Some 0\<rparr>]\<rparr>
     = [65, 83, 69, 70, 0, 1, 0, 0, 0, 0, 0, 1, 0, 1, 0, 0, 0, 24, 0, 2, 0, 65, 0,
        0, 82, 71, 66, 32, 0, 0, 0, 0, 0, 0, 0, 0, 0, 0, 0, 0, 0, 2]"
    by (simp add: createASEBuffer_def encodeBlock_def str_def strToBytes_def u16_def u32_def
          truthy_def orElse_def colorTypeOr2_def strToUTF16Bytes_def floatBytes_def)
  show ?thesis
    unfolding enc
    by (simp add: parseASE_def getChar_unfold getUTF16Units_unfold getFloats_unfold
          parseBlocks_unfold parseBlock_def getUTF16String_def getFloat32_def
          getUint8_def getUint16_def getUint32_def bindE_simps str_def numChannels_def
          stripNul_def Let_def)
qed

section \<open>Properties of the colour conversion\<close>

subsection \<open>Rounding\<close>

text \<open>
  What follows from \<open>ieeeDouble\<close>: the numbers \<open>0\<close>, \<open>1\<close> and \<open>255\<close> are doubles, the
  rounding keeps a number in \<open>[0, 1]\<close> or in \<open>[0, 255]\<close> inside that interval, and it moves
  a number of magnitude at most \<open>1\<close> by at most \<open>10^-15\<close> and a number of magnitude at
  most \<open>255\<close> by at most \<open>10^-12\<close>. Exact arithmetic is one such rounding.
\<close>

lemmas arith_defs = lit_def intNumber_def fadd_def fsub_def fmul_def fdiv_def

lemma ieeeDouble_exact: "ieeeDouble (\<lambda>x. x)"
  by (simp add: ieeeDouble_def)

lemma ieee_mono: "ieeeDouble fl \<Longrightarrow> x \<le> y \<Longrightarrow> fl x \<le> fl y"
  unfolding ieeeDouble_def by blast

lemma ieee_int: "ieeeDouble fl \<Longrightarrow> \<bar>n\<bar> \<le> 2 ^ 53 \<Longrightarrow> fl (real_of_int n) = real_of_int n"
  unfolding ieeeDouble_def by blast

lemma ieee_diff: "ieeeDouble fl \<Longrightarrow> fl x \<noteq> fl y \<Longrightarrow> fl (fl x - fl y) \<noteq> 0"
  unfolding ieeeDouble_def by blast

lemma ieee_exact:
  assumes "ieeeDouble fl"
  shows "fl 0 = 0" "fl 1 = 1" "fl 255 = 255"
  using ieee_int [OF assms, of 0] ieee_int [OF assms, of 1] ieee_int [OF assms, of 255]
  by simp_all

lemma ieee_unit:
  assumes "ieeeDouble fl" "0 \<le> x" "x \<le> 1"
  shows "0 \<le> fl x \<and> fl x \<le> 1"
  using ieee_mono [OF assms(1,2)] ieee_mono [OF assms(1,3)] ieee_exact [OF assms(1)] by simp

lemma ieee_level:
  assumes "ieeeDouble fl" "0 \<le> x" "x \<le> 255"
  shows "0 \<le> fl x \<and> fl x \<le> 255"
  using ieee_mono [OF assms(1,2)] ieee_mono [OF assms(1,3)] ieee_exact [OF assms(1)] by simp

lemma ieee_error:
  assumes "ieeeDouble fl" "\<bar>x\<bar> \<le> 2 ^ 1023"
  shows "\<bar>fl x - x\<bar> \<le> \<bar>x\<bar> / 2 ^ 53 + 1 / 2 ^ 1075"
  using assms unfolding ieeeDouble_def by blast

lemma tiny: "(1 :: real) / 2 ^ 1075 \<le> 1 / 2 ^ 53"
  by (rule divide_left_mono) (simp_all add: power_increasing)

lemma ieee_error_unit:
  assumes "ieeeDouble fl" "\<bar>x\<bar> \<le> 1"
  shows "\<bar>fl x - x\<bar> \<le> 1 / 1000000000000000"
proof -
  have "\<bar>x\<bar> \<le> (2 :: real) ^ 1023"
    using assms(2) one_le_power [of "2 :: real" 1023] by linarith
  then have "\<bar>fl x - x\<bar> \<le> \<bar>x\<bar> / 2 ^ 53 + 1 / 2 ^ 1075" by (rule ieee_error [OF assms(1)])
  moreover have "\<bar>x\<bar> / 2 ^ 53 \<le> 1 / 2 ^ 53" using assms(2) by (simp add: divide_right_mono)
  moreover have "(2 :: real) / 2 ^ 53 \<le> 1 / 1000000000000000" by simp
  ultimately show ?thesis using tiny by linarith
qed

lemma ieee_error_level:
  assumes "ieeeDouble fl" "\<bar>x\<bar> \<le> 255"
  shows "\<bar>fl x - x\<bar> \<le> 1 / 1000000000000"
proof -
  have "\<bar>x\<bar> \<le> (2 :: real) ^ 1023"
    using assms(2) power_increasing [of 8 1023 "2 :: real"] by simp
  then have "\<bar>fl x - x\<bar> \<le> \<bar>x\<bar> / 2 ^ 53 + 1 / 2 ^ 1075" by (rule ieee_error [OF assms(1)])
  moreover have "\<bar>x\<bar> / 2 ^ 53 \<le> 255 / 2 ^ 53" using assms(2) by (simp add: divide_right_mono)
  moreover have "(256 :: real) / 2 ^ 53 \<le> 1 / 1000000000000" by simp
  ultimately show ?thesis using tiny by linarith
qed

lemma sample_rounding: "rounding sampleEnv = (\<lambda>x. x)" "ieeeDouble (rounding sampleEnv)"
  by (simp_all add: sampleEnv_def ieeeDouble_exact)

lemma jsRound_upper: "real_of_int (jsRound x) \<le> x + 1 / 2"
  unfolding jsRound_def by (rule of_int_floor_le)

lemma jsRound_lower: "x - 1 / 2 < real_of_int (jsRound x)"
proof -
  have "x + 1 / 2 < real_of_int \<lfloor>x + 1 / 2\<rfloor> + 1" by linarith
  then show ?thesis unfolding jsRound_def by linarith
qed

lemma jsRound_range:
  assumes "0 \<le> x" "x \<le> 255"
  shows "0 \<le> real_of_int (jsRound x) \<and> real_of_int (jsRound x) \<le> 255"
proof -
  have "0 \<le> jsRound x"
    unfolding jsRound_def using assms(1) by simp
  moreover have "jsRound x < 256"
    unfolding jsRound_def using assms(2) by (simp add: floor_less_iff)
  ultimately show ?thesis by simp
qed

lemma abs_mult_unit:
  fixes p q a :: real
  assumes "\<bar>p\<bar> \<le> a" "0 \<le> q" "q \<le> 1"
  shows "\<bar>p * q\<bar> \<le> a"
proof -
  have "\<bar>p * q\<bar> = \<bar>p\<bar> * q" using assms(2) by (simp add: abs_mult)
  also have "\<dots> \<le> \<bar>p\<bar> * 1" using assms(3) by (intro mult_left_mono) simp_all
  finally show ?thesis using assms(1) by simp
qed

lemma mult_unit_range:
  fixes p q a :: real
  assumes "0 \<le> p" "p \<le> a" "0 \<le> q" "q \<le> 1"
  shows "0 \<le> p * q \<and> p * q \<le> a"
proof -
  have "p * q \<le> p * 1" using assms(1,4) by (intro mult_left_mono) simp_all
  then show ?thesis using assms(1,2,3) by simp
qed

lemma error_sum:
  fixes u w :: real
  assumes "\<bar>w\<bar> \<le> 1 / 1000000000000" "\<bar>u\<bar> \<le> 5 / 1000000000000000"
  shows "\<bar>w + 255 * u\<bar> \<le> 1 / 100000000000"
  using assms by linarith

text \<open>The level that \<open>blockToRgb\<close> makes of a value near \<open>255 t\<close>.\<close>

lemma level_back:
  assumes fl: "ieeeDouble fl" and s: "0 \<le> s" "s \<le> 255" and t: "\<bar>s - 255 * t\<bar> \<le> 1 / 1000"
  shows "0 \<le> fl (real_of_int (jsRound s) / 255) \<and> fl (real_of_int (jsRound s) / 255) \<le> 1
       \<and> \<bar>fl (real_of_int (jsRound s) / 255) - t\<bar> \<le> 1 / 500"
proof -
  define n where "n = real_of_int (jsRound s)"
  have n: "0 \<le> n" "n \<le> 255" using jsRound_range [OF s] by (simp_all add: n_def)
  have ns: "\<bar>n - s\<bar> \<le> 1 / 2"
    using jsRound_upper [of s] jsRound_lower [of s] unfolding n_def by linarith
  have q: "0 \<le> n / 255" "n / 255 \<le> 1" using n by simp_all
  have r: "0 \<le> fl (n / 255) \<and> fl (n / 255) \<le> 1" using fl q by (rule ieee_unit)
  have "\<bar>n / 255\<bar> \<le> 1" using q by simp
  then have e: "\<bar>fl (n / 255) - n / 255\<bar> \<le> 1 / 1000000000000000" by (rule ieee_error_unit [OF fl])
  have "\<bar>n - 255 * t\<bar> \<le> 1 / 2 + 1 / 1000" using ns t by linarith
  then have "\<bar>n / 255 - t\<bar> \<le> 501 / 255000" by linarith
  with e have "\<bar>fl (n / 255) - t\<bar> \<le> 1 / 500" by linarith
  with r show ?thesis unfolding n_def by blast
qed

text \<open>One channel of \<open>simpleCmykToRgb\<close> before \<open>Math.round\<close>.\<close>

lemma ink_level:
  assumes fl: "ieeeDouble fl" and c: "0 \<le> c" "c \<le> 1" and k: "0 \<le> k" "k \<le> 1"
  shows "0 \<le> fl (fl (255 * fl (1 - c)) * fl (1 - k))"
    and "fl (fl (255 * fl (1 - c)) * fl (1 - k)) \<le> 255"
    and "\<bar>fl (fl (255 * fl (1 - c)) * fl (1 - k)) - 255 * ((1 - c) * (1 - k))\<bar> \<le> 1 / 1000"
proof -
  define A where "A = fl (1 - c)"
  define B where "B = fl (255 * A)"
  define D where "D = fl (1 - k)"
  define eA where "eA = A - (1 - c)"
  define eB where "eB = B - 255 * A"
  define eD where "eD = D - (1 - k)"
  have A: "0 \<le> A" "A \<le> 1" using ieee_unit [OF fl, of "1 - c"] c by (simp_all add: A_def)
  have D: "0 \<le> D" "D \<le> 1" using ieee_unit [OF fl, of "1 - k"] k by (simp_all add: D_def)
  have B: "0 \<le> B" "B \<le> 255" using ieee_level [OF fl, of "255 * A"] A by (simp_all add: B_def)
  have BD: "0 \<le> B * D \<and> B * D \<le> 255" using B D by (intro mult_unit_range)
  then have S: "0 \<le> fl (B * D) \<and> fl (B * D) \<le> 255" using ieee_level [OF fl, of "B * D"] by simp
  have a: "\<bar>eA\<bar> \<le> 1 / 1000000000000000"
    unfolding eA_def A_def using c by (intro ieee_error_unit [OF fl]) simp
  have d: "\<bar>eD\<bar> \<le> 1 / 1000000000000000"
    unfolding eD_def D_def using k by (intro ieee_error_unit [OF fl]) simp
  have b: "\<bar>eB\<bar> \<le> 1 / 1000000000000"
    unfolding eB_def B_def using A by (intro ieee_error_level [OF fl]) simp
  have s: "\<bar>fl (B * D) - B * D\<bar> \<le> 1 / 1000000000000"
    using BD by (intro ieee_error_level [OF fl]) simp
  have split: "B * D - 255 * ((1 - c) * (1 - k))
         = eB * D + 255 * (eA * D) + 255 * (eD * (1 - c))"
    unfolding eA_def eB_def eD_def by (simp add: algebra_simps)
  have p1: "\<bar>eB * D\<bar> \<le> 1 / 1000000000000" using b D by (rule abs_mult_unit)
  have p2: "\<bar>eA * D\<bar> \<le> 1 / 1000000000000000" using a D by (rule abs_mult_unit)
  have p3: "\<bar>eD * (1 - c)\<bar> \<le> 1 / 1000000000000000" using d c by (intro abs_mult_unit) simp_all
  have "\<bar>B * D - 255 * ((1 - c) * (1 - k))\<bar> \<le> 1 / 100000000000"
    unfolding split using p1 p2 p3 by linarith
  with s have "\<bar>fl (B * D) - 255 * ((1 - c) * (1 - k))\<bar> \<le> 1 / 1000" by linarith
  with S show "0 \<le> fl (fl (255 * fl (1 - c)) * fl (1 - k))"
    and "fl (fl (255 * fl (1 - c)) * fl (1 - k)) \<le> 255"
    and "\<bar>fl (fl (255 * fl (1 - c)) * fl (1 - k)) - 255 * ((1 - c) * (1 - k))\<bar> \<le> 1 / 1000"
    unfolding A_def B_def D_def by blast+
qed

text \<open>
  One channel of the way from RGB to CMYK and back, before \<open>Math.round\<close>: \<open>k\<close> is the
  black of \<open>rgbToCmyk\<close>, a double below \<open>1\<close> and at most \<open>c = 1 - r\<close>.
\<close>

lemma ink_back:
  assumes fl: "ieeeDouble fl" and r: "0 \<le> r" "r \<le> 1" and k: "0 \<le> fl z" "fl z \<le> fl (1 - r)"
      and k1: "fl z \<noteq> 1"
  shows "0 \<le> fl (fl (255 * fl (1 - fl (fl (fl (1 - r) - fl z) / fl (1 - fl z)))) * fl (1 - fl z))"
    and "fl (fl (255 * fl (1 - fl (fl (fl (1 - r) - fl z) / fl (1 - fl z)))) * fl (1 - fl z)) \<le> 255"
    and "\<bar>fl (fl (255 * fl (1 - fl (fl (fl (1 - r) - fl z) / fl (1 - fl z)))) * fl (1 - fl z))
          - 255 * r\<bar> \<le> 1 / 1000"
proof -
  define c where "c = fl (1 - r)"
  define D where "D = fl (1 - fl z)"
  define N where "N = fl (c - fl z)"
  define q where "q = N / D"
  define c' where "c' = fl q"
  define A where "A = fl (1 - c')"
  define B where "B = fl (255 * A)"
  define ec where "ec = c - (1 - r)"
  define eD where "eD = D - (1 - fl z)"
  define eN where "eN = N - (c - fl z)"
  define eq where "eq = c' - q"
  define eA where "eA = A - (1 - c')"
  define eB where "eB = B - 255 * A"
  note one = ieee_exact(2) [OF fl] and zero = ieee_exact(1) [OF fl]
  have c: "0 \<le> c" "c \<le> 1" using ieee_unit [OF fl, of "1 - r"] r by (simp_all add: c_def)
  have kr: "0 \<le> fl z" "fl z \<le> c" "fl z \<le> 1" using k c by (simp_all add: c_def)
  have "fl 1 \<noteq> fl z" using k1 one by simp
  then have "fl (fl 1 - fl z) \<noteq> 0" by (rule ieee_diff [OF fl])
  then have Dnz: "D \<noteq> 0" by (simp add: D_def one)
  have D: "0 \<le> D" "D \<le> 1" using ieee_unit [OF fl, of "1 - fl z"] kr by (simp_all add: D_def)
  have N0: "0 \<le> N" using ieee_mono [OF fl, of 0 "c - fl z"] kr by (simp add: N_def zero)
  have ND: "N \<le> D" unfolding N_def D_def using c by (intro ieee_mono [OF fl]) simp
  have Dpos: "0 < D" using D Dnz by simp
  have q: "0 \<le> q" "q \<le> 1" using N0 ND Dpos by (simp_all add: q_def)
  have qD: "q * D = N" using Dnz by (simp add: q_def)
  have c': "0 \<le> c'" "c' \<le> 1" using ieee_unit [OF fl q] by (simp_all add: c'_def)
  have A: "0 \<le> A" "A \<le> 1" using ieee_unit [OF fl, of "1 - c'"] c' by (simp_all add: A_def)
  have B: "0 \<le> B" "B \<le> 255" using ieee_level [OF fl, of "255 * A"] A by (simp_all add: B_def)
  have BD: "0 \<le> B * D \<and> B * D \<le> 255" using B D by (intro mult_unit_range)
  then have S: "0 \<le> fl (B * D) \<and> fl (B * D) \<le> 255" using ieee_level [OF fl, of "B * D"] by simp
  have e1: "\<bar>ec\<bar> \<le> 1 / 1000000000000000"
    unfolding ec_def c_def using r by (intro ieee_error_unit [OF fl]) simp
  have e2: "\<bar>eD\<bar> \<le> 1 / 1000000000000000"
    unfolding eD_def D_def using kr by (intro ieee_error_unit [OF fl]) simp
  have e3: "\<bar>eN\<bar> \<le> 1 / 1000000000000000"
    unfolding eN_def N_def using kr c by (intro ieee_error_unit [OF fl]) simp
  have e4: "\<bar>eq\<bar> \<le> 1 / 1000000000000000"
    unfolding eq_def c'_def using q by (intro ieee_error_unit [OF fl]) simp
  have e5: "\<bar>eA\<bar> \<le> 1 / 1000000000000000"
    unfolding eA_def A_def using c' by (intro ieee_error_unit [OF fl]) simp
  have e6: "\<bar>eB\<bar> \<le> 1 / 1000000000000"
    unfolding eB_def B_def using A by (intro ieee_error_level [OF fl]) simp
  have s: "\<bar>fl (B * D) - B * D\<bar> \<le> 1 / 1000000000000"
    using BD by (intro ieee_error_level [OF fl]) simp
  have "A * D = (1 - q) * D + (eA - eq) * D"
    unfolding eA_def eq_def by (simp add: algebra_simps)
  also have "(1 - q) * D = D - N" using qD by (simp add: algebra_simps)
  finally have AD: "A * D = D - N + (eA * D - eq * D)" by (simp add: algebra_simps)
  have DN: "D - N = r + (eD - eN - ec)"
    unfolding eD_def eN_def ec_def by simp
  have split: "B * D - 255 * r = eB * D + 255 * (eA * D - eq * D + (eD - eN - ec))"
  proof -
    have "B * D = eB * D + 255 * (A * D)" unfolding eB_def by (simp add: algebra_simps)
    then show ?thesis unfolding AD DN by simp
  qed
  have p1: "\<bar>eB * D\<bar> \<le> 1 / 1000000000000" using e6 D by (rule abs_mult_unit)
  have p2: "\<bar>eA * D\<bar> \<le> 1 / 1000000000000000" using e5 D by (rule abs_mult_unit)
  have p3: "\<bar>eq * D\<bar> \<le> 1 / 1000000000000000" using e4 D by (rule abs_mult_unit)
  have "\<bar>eA * D - eq * D\<bar> \<le> 2 / 1000000000000000" using p2 p3 by linarith
  moreover have "\<bar>eD - eN - ec\<bar> \<le> 3 / 1000000000000000" using e1 e2 e3 by linarith
  ultimately have "\<bar>eA * D - eq * D + (eD - eN - ec)\<bar> \<le> 5 / 1000000000000000" by linarith
  with p1 have "\<bar>B * D - 255 * r\<bar> \<le> 1 / 100000000000"
    unfolding split by (rule error_sum)
  with s have "\<bar>fl (B * D) - 255 * r\<bar> \<le> 1 / 1000" by linarith
  with S show "0 \<le> fl (fl (255 * fl (1 - fl (fl (fl (1 - r) - fl z) / fl (1 - fl z)))) * fl (1 - fl z))"
    and "fl (fl (255 * fl (1 - fl (fl (fl (1 - r) - fl z) / fl (1 - fl z)))) * fl (1 - fl z)) \<le> 255"
    and "\<bar>fl (fl (255 * fl (1 - fl (fl (fl (1 - r) - fl z) / fl (1 - fl z)))) * fl (1 - fl z))
          - 255 * r\<bar> \<le> 1 / 1000"
    unfolding A_def B_def D_def c'_def q_def N_def c_def by blast+
qed

subsection \<open>Model tags\<close>

lemma trim_tags:
  "trim (str ''RGB '') = str ''RGB''" "trim (str ''LAB '') = str ''LAB''"
  "trim (str ''CMYK'') = str ''CMYK''" "trim (str ''Gray'') = str ''Gray''"
  "trim (str ''RGB'') = str ''RGB''"
  by (simp_all add: trim_def str_def isWhiteSpace_def)

lemma str_neq:
  "str ''RGB'' \<noteq> str ''CMYK''" "str ''LAB'' \<noteq> str ''CMYK''" "str ''LAB'' \<noteq> str ''RGB''"
  "str ''Gray'' \<noteq> str ''CMYK''" "str ''Gray'' \<noteq> str ''RGB''" "str ''Gray'' \<noteq> str ''LAB''"
  "str ''RGB '' \<noteq> []" "str ''LAB '' \<noteq> []" "str ''CMYK'' \<noteq> []" "str ''Gray'' \<noteq> []"
  by (simp_all add: str_def)

subsection \<open>Blocks without channel values\<close>

text \<open>
  Claim C10. For a block whose \<open>values\<close> array is missing or empty \<open>blockToRgb\<close> returns
  \<open>[0, 0, 0]\<close>, whatever the name, the model, the reference library and the colour engine
  are: the test comes before the authority check and before every conversion. The
  example is a block that carries the name of a reference entry.
\<close>

theorem blockToRgb_no_values:
  assumes "values blk = None \<or> values blk = Some []"
  shows "blockToRgb env blk = [0, 0, 0]"
  using assms by (auto simp: blockToRgb_def Let_def)

theorem blockToRgb_no_values_witness:
  "(values (sampleColor ''Red'' ''LAB '' []) = None \<or> values (sampleColor ''Red'' ''LAB '' []) = Some [])
   \<and> getOfficialEntry sampleEnv (str ''Red'') = Some sampleEntry
   \<and> blockToRgb sampleEnv (sampleColor ''Red'' ''LAB '' []) = [0, 0, 0]"
proof -
  have h: "values (sampleColor ''Red'' ''LAB '' []) = None \<or> values (sampleColor ''Red'' ''LAB '' []) = Some []"
    by (simp add: sampleColor_def)
  show ?thesis
    using h blockToRgb_no_values [OF h, of sampleEnv]
    by (simp add: sampleEnv_def)
qed

subsection \<open>The authority check\<close>

lemma hexToRgb_sample: "hexToRgb sampleEnv (Hex sampleEntry) = [1, 0, 0]"
  by (simp add: sampleEntry_def hexToRgb_def str_def isDigitIn_def digitVal_def hexByte_def
        parseInt_def isWhiteSpace_def digitsValue_def arith_defs sample_rounding)

text \<open>
  Claim C2 as stated fails for a block without channel values: a LAB block named after
  the reference entry \<open>Red\<close> and with an empty \<open>values\<close> array is rendered as
  \<open>[0, 0, 0]\<close>, not as the canonical colour \<open>[1, 0, 0]\<close> of the entry.
\<close>

theorem blockToRgb_authority_counterexample:
  "name (sampleColor ''Red'' ''LAB '' []) = Some (str ''Red'')
   \<and> getOfficialEntry sampleEnv (str ''Red'') = Some sampleEntry
   \<and> trim (orElse (model (sampleColor ''Red'' ''LAB '' [])) (str ''RGB'')) = str ''LAB''
   \<and> blockToRgb sampleEnv (sampleColor ''Red'' ''LAB '' []) \<noteq> hexToRgb sampleEnv (Hex sampleEntry)"
proof -
  have "blockToRgb sampleEnv (sampleColor ''Red'' ''LAB '' []) = [0, 0, 0]"
    by (simp add: blockToRgb_def sampleColor_def)
  moreover have "getOfficialEntry sampleEnv (str ''Red'') = Some sampleEntry"
    by (simp add: sampleEnv_def)
  ultimately show ?thesis
    by (simp add: hexToRgb_sample sampleColor_def orElse_def trim_tags str_neq)
qed

text \<open>
  The comparison of \<open>isStandardPantone\<close> in doubles: a stored value within
  \<open>0.01 - 10^-9\<close> of the canonical value \<open>b / d\<close> passes, since the quotient, the
  difference and the literal \<open>0.01\<close> are each rounded by at most \<open>10^-15\<close>.
\<close>

lemma near_margin:
  assumes fl: "ieeeDouble (rounding env)" and d: "d = 100 \<or> d = 255"
      and c: "0 \<le> real_of_int b / d" "real_of_int b / d \<le> 1"
      and v: "\<bar>a - real_of_int b / d\<bar> \<le> 0.01 - 1 / 10 ^ 9"
  shows "near env (Some a) (Some b) d"
proof -
  define cv where "cv = real_of_int b / d"
  define c' where "c' = rounding env cv"
  from d c have "0 \<le> real_of_int b" "real_of_int b \<le> 255" by auto
  then have "0 \<le> b" "b \<le> 255" by linarith+
  then have "\<bar>b\<bar> \<le> 2 ^ 53" by simp
  then have b: "intNumber env b = real_of_int b"
    unfolding intNumber_def by (rule ieee_int [OF fl])
  have e1: "\<bar>c' - cv\<bar> \<le> 1 / 1000000000000000"
    unfolding c'_def using c by (intro ieee_error_unit [OF fl]) (simp add: cv_def)
  from v have v': "\<bar>a - cv\<bar> \<le> 9999999 / 1000000000" by (simp add: cv_def)
  with e1 have "\<bar>a - c'\<bar> \<le> 1" by linarith
  then have e2: "\<bar>rounding env (a - c') - (a - c')\<bar> \<le> 1 / 1000000000000000"
    by (rule ieee_error_unit [OF fl])
  have e3: "\<bar>rounding env (1 / 100) - 1 / 100\<bar> \<le> 1 / 1000000000000000"
    by (rule ieee_error_unit [OF fl]) simp
  from v' e1 e2 e3 have "\<bar>rounding env (a - c')\<bar> < rounding env (1 / 100)" by linarith
  then show ?thesis
    by (simp add: near_def lit_def fsub_def fdiv_def b c'_def cv_def)
qed

lemma near_valueAt:
  "i < length vs \<Longrightarrow> near env (Some (vs ! i)) n d \<Longrightarrow> near env (valueAt vs i) n d"
  by (simp add: valueAt_def)

lemma withinTolerance_nth:
  "withinTolerance vs cs \<Longrightarrow> i < length cs \<Longrightarrow>
     i < length vs \<and> 0 \<le> cs ! i \<and> cs ! i \<le> 1 \<and> \<bar>vs ! i - cs ! i\<bar> \<le> 0.01 - 1 / 10 ^ 9"
  unfolding withinTolerance_def list_all_length by auto

lemma near_canonical:
  assumes "ieeeDouble (rounding env)" and "d = 100 \<or> d = 255"
      and "withinTolerance vs cs" and "i < length cs" and "cs ! i = real_of_int b / d"
  shows "near env (valueAt vs i) (Some b) d"
proof -
  from withinTolerance_nth [OF assms(3,4)] assms(5)
  have "i < length vs" "0 \<le> real_of_int b / d" "real_of_int b / d \<le> 1"
    "\<bar>vs ! i - real_of_int b / d\<bar> \<le> 0.01 - 1 / 10 ^ 9" by simp_all
  then show ?thesis
    using near_margin [OF assms(1,2), of b "vs ! i"] by (intro near_valueAt) simp_all
qed

lemma isStandardPantone_canonical:
  assumes fl: "ieeeDouble (rounding env)"
      and "m = trim (orElse (model blk) (str ''RGB''))"
      and "values blk = Some vs"
      and "m = str ''CMYK'' \<or> m = str ''RGB'' \<longrightarrow>
             (\<exists>cs. canonicalValues entry m = Some cs \<and> withinTolerance vs cs)"
  shows "isStandardPantone env blk entry"
proof -
  consider "m = str ''CMYK''" | "m \<noteq> str ''CMYK''" "m = str ''RGB''"
    | "m \<noteq> str ''CMYK''" "m \<noteq> str ''RGB''" by blast
  then show ?thesis
  proof cases
    case 1
    with assms(4) obtain cs where cs: "canonicalValues entry m = Some cs" "withinTolerance vs cs"
      by blast
    from cs(1) 1 obtain c mg y k where p: "parseInt (C entry) 0 = Some c" "parseInt (M entry) 0 = Some mg"
        "parseInt (Y entry) 0 = Some y" "parseInt (K entry) 0 = Some k"
        "cs = [real_of_int c / 100, real_of_int mg / 100, real_of_int y / 100, real_of_int k / 100]"
      by (auto simp: canonicalValues_def split: option.splits)
    have "near env (valueAt vs 0) (Some c) 100" "near env (valueAt vs 1) (Some mg) 100"
      "near env (valueAt vs 2) (Some y) 100" "near env (valueAt vs 3) (Some k) 100"
      by (rule near_canonical [OF fl _ cs(2)]; simp add: p(5))+
    with p 1 assms(2,3) show ?thesis
      by (simp add: isStandardPantone_def Let_def)
  next
    case 2
    with assms(4) obtain cs where cs: "canonicalValues entry m = Some cs" "withinTolerance vs cs"
      by blast
    from cs(1) 2 obtain r g b where p: "parseInt (R entry) 0 = Some r" "parseInt (G entry) 0 = Some g"
        "parseInt (B entry) 0 = Some b"
        "cs = [real_of_int r / 255, real_of_int g / 255, real_of_int b / 255]"
      by (auto simp: canonicalValues_def str_neq split: option.splits)
    have "near env (valueAt vs 0) (Some r) 255" "near env (valueAt vs 1) (Some g) 255"
      "near env (valueAt vs 2) (Some b) 255"
      by (rule near_canonical [OF fl _ cs(2)]; simp add: p(4))+
    with p 2 assms(2,3) show ?thesis
      by (simp add: isStandardPantone_def Let_def str_neq)
  next
    case 3
    with assms(2,3) show ?thesis
      by (simp add: isStandardPantone_def Let_def)
  qed
qed

text \<open>
  Claim C2, amended. Let the block have a non-empty name for which the reference library
  returns an entry, and a non-empty \<open>values\<close> array. If the model is CMYK or RGB, let
  the entry have canonical values in that model, all of them in \<open>[0, 1]\<close>, and let every
  stored channel differ from its canonical value by at most \<open>0.01 - 10^-9\<close>; for every
  other model nothing more is asked. Then \<open>blockToRgb\<close>, calculating in doubles, returns
  the colour of the entry's \<open>Hex\<close> field and no conversion is made. (Trimming and case
  folding of the name are the business of the library's lookup. At a distance of \<open>0.01\<close>
  up to rounding the doubles decide, and the claim says nothing.)
\<close>

theorem blockToRgb_authority:
  assumes "ieeeDouble (rounding env)"
      and "name blk = Some nm" and "nm \<noteq> []"
      and "getOfficialEntry env nm = Some entry"
      and "values blk = Some vs" and "vs \<noteq> []"
      and "m = trim (orElse (model blk) (str ''RGB''))"
      and "m = str ''CMYK'' \<or> m = str ''RGB'' \<longrightarrow>
             (\<exists>cs. canonicalValues entry m = Some cs \<and> withinTolerance vs cs)"
  shows "blockToRgb env blk = hexToRgb env (Hex entry)"
proof -
  have "isStandardPantone env blk entry"
    using assms(1,7,5,8) by (rule isStandardPantone_canonical)
  with assms(2-4) have "authority env blk = Some (hexToRgb env (Hex entry))"
    by (simp add: authority_def truthy_def)
  with assms(5,6) show ?thesis
    by (simp add: blockToRgb_def Let_def)
qed

theorem blockToRgb_authority_witness:
  "ieeeDouble (rounding sampleEnv)
   \<and> name (sampleColor ''Red'' ''CMYK'' [0.005, 1, 0.995, 0]) = Some (str ''Red'')
   \<and> str ''Red'' \<noteq> []
   \<and> getOfficialEntry sampleEnv (str ''Red'') = Some sampleEntry
   \<and> values (sampleColor ''Red'' ''CMYK'' [0.005, 1, 0.995, 0]) = Some [0.005, 1, 0.995, 0]
   \<and> [0.005, 1, 0.995, 0 :: real] \<noteq> []
   \<and> str ''CMYK'' = trim (orElse (model (sampleColor ''Red'' ''CMYK'' [0.005, 1, 0.995, 0])) (str ''RGB''))
   \<and> canonicalValues sampleEntry (str ''CMYK'') = Some [0, 1, 1, 0]
   \<and> withinTolerance [0.005, 1, 0.995, 0] [0, 1, 1, 0]
   \<and> blockToRgb sampleEnv (sampleColor ''Red'' ''CMYK'' [0.005, 1, 0.995, 0]) = [1, 0, 0]"
proof -
  let ?b = "sampleColor ''Red'' ''CMYK'' [0.005, 1, 0.995, 0]"
  have h1: "name ?b = Some (str ''Red'')" by (simp add: sampleColor_def)
  have h2: "str ''Red'' \<noteq> []" by (simp add: str_def)
  have h3: "getOfficialEntry sampleEnv (str ''Red'') = Some sampleEntry"
    by (simp add: sampleEnv_def)
  have h4: "values ?b = Some [0.005, 1, 0.995, 0]" by (simp add: sampleColor_def)
  have h5: "[0.005, 1, 0.995, 0 :: real] \<noteq> []" by simp
  have h6: "str ''CMYK'' = trim (orElse (model ?b) (str ''RGB''))"
    by (simp add: sampleColor_def orElse_def trim_tags str_neq)
  have c: "canonicalValues sampleEntry (str ''CMYK'') = Some [0, 1, 1, 0]"
    by (simp add: canonicalValues_def sampleEntry_def parseInt_def str_def isWhiteSpace_def
          isDigitIn_def digitVal_def digitsValue_def)
  have w: "withinTolerance [0.005, 1, 0.995, 0] [0, 1, 1, 0]"
    by (simp add: withinTolerance_def)
  have h7: "str ''CMYK'' = str ''CMYK'' \<or> str ''CMYK'' = str ''RGB'' \<longrightarrow>
        (\<exists>cs. canonicalValues sampleEntry (str ''CMYK'') = Some cs
              \<and> withinTolerance [0.005, 1, 0.995, 0] cs)"
    using c w by blast
  show ?thesis
    using sample_rounding(2) h1 h2 h3 h4 h5 h6 c w
      blockToRgb_authority [OF sample_rounding(2) h1 h2 h3 h4 h5 h6 h7]
    by (simp add: hexToRgb_sample)
qed

subsection \<open>The range of the result\<close>

lemma hexDigit_range: "isDigitIn 16 c \<Longrightarrow> 48 \<le> unat c \<and> unat c \<le> 102"
  by (auto simp: isDigitIn_def digitVal_def Let_def split: if_splits option.splits)

lemma hexDigit_not_space: 
  assumes "isDigitIn 16 c" shows "\<not> isWhiteSpace c"
proof
  assume ws: "isWhiteSpace c"
  from assms have r: "48 \<le> unat c" "unat c \<le> 102" using hexDigit_range by blast+
  from ws consider "c \<in> {0x09, 0x0A, 0x0B, 0x0C, 0x0D, 0x20, 0xA0, 0x1680, 0x2028, 0x2029,
            0x202F, 0x205F, 0x3000, 0xFEFF}" | "0x2000 \<le> c"
    by (auto simp: isWhiteSpace_def)
  then show False
  proof cases
    case 1
    with r show False by auto
  next
    case 2
    then have "unat (0x2000 :: 16 word) \<le> unat c" by (simp only: word_le_nat_alt)
    with r show False by simp
  qed
qed

lemma hexDigit_not_special:
  assumes "isDigitIn 16 c"
  shows "c \<noteq> 0x2D" "c \<noteq> 0x2B" "c \<noteq> 0x78" "c \<noteq> 0x58" "c \<noteq> 0x23"
  using assms by (auto simp: isDigitIn_def digitVal_def)

lemma hexDigit_val: "isDigitIn 16 c \<Longrightarrow> the (digitVal c) < 16"
  by (auto simp: isDigitIn_def split: option.splits)

lemma parseInt_hex_pair:
  assumes "isDigitIn 16 a" "isDigitIn 16 b"
  shows "parseInt [a, b] 16 = Some (int (the (digitVal a) * 16 + the (digitVal b)))"
proof -
  have "take 2 [a, b] \<noteq> str ''0x''" "take 2 [a, b] \<noteq> str ''0X''"
    using hexDigit_not_special [OF assms(2)] by (simp_all add: str_def)
  then show ?thesis
    using assms hexDigit_not_space [OF assms(1)] hexDigit_not_special [OF assms(1)]
    by (simp add: parseInt_def Let_def digitsValue_def)
qed

lemma level_unit:
  assumes fl: "ieeeDouble (rounding env)" and n: "0 \<le> n" "n \<le> 255"
  shows "0 \<le> fdiv env (intNumber env n) 255 \<and> fdiv env (intNumber env n) 255 \<le> 1"
proof -
  from n have "\<bar>n\<bar> \<le> 2 ^ 53" by simp
  then have e: "intNumber env n = real_of_int n"
    unfolding intNumber_def by (rule ieee_int [OF fl])
  have "0 \<le> real_of_int n / 255" "real_of_int n / 255 \<le> 1" using n by simp_all
  then show ?thesis unfolding fdiv_def e by (rule ieee_unit [OF fl])
qed

lemma hexByte_unit:
  assumes "ieeeDouble (rounding env)" "isDigitIn 16 a" "isDigitIn 16 b"
  shows "0 \<le> hexByte env [a, b] \<and> hexByte env [a, b] \<le> 1"
proof -
  have "the (digitVal a) * 16 + the (digitVal b) \<le> 255"
    using hexDigit_val [OF assms(2)] hexDigit_val [OF assms(3)] by simp
  then have "int (the (digitVal a) * 16 + the (digitVal b)) \<le> 255" by simp
  then show ?thesis
    using level_unit [OF assms(1), of "int (the (digitVal a) * 16 + the (digitVal b))"]
    by (simp add: hexByte_def parseInt_hex_pair [OF assms(2,3)])
qed

lemma length6: "length (h :: 'a list) = 6 \<Longrightarrow> \<exists>a b c d e f. h = [a, b, c, d, e, f]"
  by (auto simp: numeral_eq_Suc length_Suc_conv)

lemma hexToRgb_inUnit:
  assumes fl: "ieeeDouble (rounding env)"
  shows "inUnit (hexToRgb env hex)"
proof -
  define h where "h = (if hex \<noteq> [] \<and> hd hex = 0x23 then tl hex else hex)"
  show ?thesis
  proof (cases "length h = 6 \<and> list_all (isDigitIn 16) h")
    case False
    then have "hexToRgb env hex = [0, 0, 0]"
      unfolding hexToRgb_def h_def [symmetric] Let_def by (rule if_not_P)
    then show ?thesis by (simp add: inUnit_def)
  next
    case True
    then obtain a b c d e f where h: "h = [a, b, c, d, e, f]"
      using length6 [of h] by blast
    with True have dg: "isDigitIn 16 a" "isDigitIn 16 b" "isDigitIn 16 c" "isDigitIn 16 d"
        "isDigitIn 16 e" "isDigitIn 16 f" by simp_all
    from True have "hexToRgb env hex =
        [hexByte env (take 2 h), hexByte env (take 2 (drop 2 h)), hexByte env (take 2 (drop 4 h))]"
      unfolding hexToRgb_def h_def [symmetric] Let_def by (rule if_P)
    then have "hexToRgb env hex = [hexByte env [a, b], hexByte env [c, d], hexByte env [e, f]]"
      by (simp add: h)
    then show ?thesis
      using hexByte_unit [OF fl dg(1,2)] hexByte_unit [OF fl dg(3,4)] hexByte_unit [OF fl dg(5,6)]
      by (simp add: inUnit_def)
  qed
qed

text \<open>One channel of the analytic path, as \<open>blockToRgb\<close> returns it.\<close>

lemma fallback_channel:
  assumes fl: "ieeeDouble (rounding env)" and c: "0 \<le> c \<and> c \<le> 1" and k: "0 \<le> k \<and> k \<le> 1"
  shows "0 \<le> fdiv env (real_of_int (jsRound (fmul env (fmul env 255 (fsub env 1 c)) (fsub env 1 k)))) 255
       \<and> fdiv env (real_of_int (jsRound (fmul env (fmul env 255 (fsub env 1 c)) (fsub env 1 k)))) 255 \<le> 1
       \<and> \<bar>fdiv env (real_of_int (jsRound (fmul env (fmul env 255 (fsub env 1 c)) (fsub env 1 k)))) 255
           - (1 - c) * (1 - k)\<bar> \<le> 1 / 500"
proof -
  from c k have r: "0 \<le> c" "c \<le> 1" "0 \<le> k" "k \<le> 1" by simp_all
  show ?thesis
    unfolding fdiv_def fmul_def fsub_def
    by (rule level_back [OF fl ink_level [OF fl r]])
qed

lemma simpleCmykToRgb_inUnit:
  assumes "ieeeDouble (rounding env)"
      and "0 \<le> c \<and> c \<le> 1" "0 \<le> m \<and> m \<le> 1" "0 \<le> y \<and> y \<le> 1" "0 \<le> k \<and> k \<le> 1"
  shows "inUnit (map (\<lambda>x. fdiv env x 255) (simpleCmykToRgb env c m y k))"
  using fallback_channel [OF assms(1,2,5)] fallback_channel [OF assms(1,3,5)]
    fallback_channel [OF assms(1,4,5)]
  by (simp add: simpleCmykToRgb_def inUnit_def)

lemma byte_level:
  assumes fl: "ieeeDouble (rounding env)"
  shows "0 \<le> fdiv env (real (unat (b :: byte))) 255 \<and> fdiv env (real (unat b)) 255 \<le> 1"
proof -
  have "unat b \<le> 255" using unat_byte_less [of b] by simp
  then have "real (unat b) \<le> real 255" by (rule of_nat_mono)
  moreover have "0 \<le> real (unat b)" by (rule of_nat_0_le_iff)
  ultimately have "0 \<le> real (unat b) / 255" "real (unat b) / 255 \<le> 1"
    by (simp_all del: of_nat_unat)
  then show ?thesis unfolding fdiv_def by (rule ieee_unit [OF fl])
qed

lemma cmykToProfileRGB_inUnit:
  assumes fl: "ieeeDouble (rounding env)"
      and r: "0 \<le> c \<and> c \<le> 1" "0 \<le> m \<and> m \<le> 1" "0 \<le> y \<and> y \<le> 1" "0 \<le> k \<and> k \<le> 1"
  shows "inUnit (map (\<lambda>x. fdiv env x 255) (cmykToProfileRGB env c m y k))"
proof (cases "engineUnavailable env c m y k")
  case True
  then have "cmykToProfileRGB env c m y k = simpleCmykToRgb env c m y k"
    by (auto simp: cmykToProfileRGB_def engineUnavailable_def)
  then show ?thesis using simpleCmykToRgb_inUnit [OF fl r] by simp
next
  case False
  then have ready: "isReady env" "cmykTransform env \<noteq> 0"
    and some: "doTransform env [toUint8 (jsRound (fmul env c 255)), toUint8 (jsRound (fmul env m 255)),
                          toUint8 (jsRound (fmul env y 255)), toUint8 (jsRound (fmul env k 255))] \<noteq> None"
    by (simp_all add: engineUnavailable_def)
  from some obtain r g b where
    "doTransform env [toUint8 (jsRound (fmul env c 255)), toUint8 (jsRound (fmul env m 255)),
                          toUint8 (jsRound (fmul env y 255)), toUint8 (jsRound (fmul env k 255))] = Some (r, g, b)"
    by (metis not_None_eq prod_cases3)
  with ready have "cmykToProfileRGB env c m y k = [real (unat r), real (unat g), real (unat b)]"
    by (simp del: of_nat_unat add: cmykToProfileRGB_def)
  then show ?thesis
    using byte_level [OF fl, of r] byte_level [OF fl, of g] byte_level [OF fl, of b]
    by (simp del: of_nat_unat add: inUnit_def)
qed

lemma clamped_inUnit: "inUnit [min 1 (max 0 r), min 1 (max 0 g), min 1 (max 0 b)]"
  by (simp add: inUnit_def)

lemma labToRgbValues_clamped:
  assumes "\<bar>L\<bar> \<le> 10 ^ 100 \<and> \<bar>a\<bar> \<le> 10 ^ 100 \<and> \<bar>b\<bar> \<le> 10 ^ 100"
  shows "\<exists>r g b'. labToRgbValues env L a b = [min 1 (max 0 r), min 1 (max 0 g), min 1 (max 0 b')]"
  unfolding labToRgbValues_def Let_def if_P [OF assms] by (rule exI)+ (rule refl)

lemma labToRgbValues_inUnit:
  assumes "\<bar>L\<bar> \<le> 10 ^ 100" "\<bar>a\<bar> \<le> 10 ^ 100" "\<bar>b\<bar> \<le> 10 ^ 100"
  shows "inUnit (labToRgbValues env L a b)"
proof -
  from assms have "\<bar>L\<bar> \<le> 10 ^ 100 \<and> \<bar>a\<bar> \<le> 10 ^ 100 \<and> \<bar>b\<bar> \<le> 10 ^ 100" by blast
  then obtain r g b' where
    "labToRgbValues env L a b = [min 1 (max 0 r), min 1 (max 0 g), min 1 (max 0 b')]"
    using labToRgbValues_clamped by blast
  then show ?thesis by (simp only: clamped_inUnit)
qed

lemma authority_inUnit:
  "ieeeDouble (rounding env) \<Longrightarrow> authority env blk = Some rgb \<Longrightarrow> inUnit rgb"
  by (auto simp: authority_def hexToRgb_inUnit split: if_splits option.splits)

lemma ch_unit: "list_all (\<lambda>x. 0 \<le> x \<and> x \<le> 1) v \<Longrightarrow> 0 \<le> ch v i \<and> ch v i \<le> 1"
  by (simp add: ch_def list_all_length)

lemma ch_finite: "list_all (\<lambda>x. \<bar>x\<bar> \<le> 10 ^ 100) v \<Longrightarrow> \<bar>ch v i\<bar> \<le> 10 ^ 100"
  by (simp add: ch_def list_all_length)

lemma unit_finite: "0 \<le> x \<and> x \<le> 1 \<Longrightarrow> \<bar>x\<bar> \<le> (10 :: real) ^ 100"
  using one_le_power [of "10 :: real" 100] by simp

text \<open>
  Claim C6, amended. \<open>blockToRgb\<close>, calculating in doubles, returns three components in
  \<open>[0, 1]\<close> whenever all stored channel values lie in \<open>[0, 1]\<close>, or the model is LAB and
  the stored channel values are at most \<open>10^100\<close> in magnitude, so that the arithmetic of
  \<open>labToRgbValues\<close> stays within the finite doubles and its result is clamped. This
  covers the authority path, both CMYK paths, RGB, Gray, unknown models and blocks
  without values.
\<close>

theorem blockToRgb_inUnit:
  assumes "ieeeDouble (rounding env)"
      and "(trim (orElse (model blk) (str ''RGB'')) = str ''LAB''
            \<and> list_all (\<lambda>x. \<bar>x\<bar> \<le> 10 ^ 100) (case values blk of None \<Rightarrow> [] | Some vs \<Rightarrow> vs))
           \<or> list_all (\<lambda>x. 0 \<le> x \<and> x \<le> 1) (case values blk of None \<Rightarrow> [] | Some vs \<Rightarrow> vs)"
  shows "inUnit (blockToRgb env blk)"
proof -
  define m where "m = trim (orElse (model blk) (str ''RGB''))"
  define v where "v = (case values blk of None \<Rightarrow> [] | Some vs \<Rightarrow> vs)"
  have z: "inUnit [0, 0, 0]" by (simp add: inUnit_def)
  have eq: "blockToRgb env blk =
     (if v = [] then [0, 0, 0]
      else case authority env blk of
             Some rgb \<Rightarrow> rgb
           | None \<Rightarrow>
               if m = str ''CMYK'' then
                 map (\<lambda>x. fdiv env x 255) (cmykToProfileRGB env (ch v 0) (ch v 1) (ch v 2) (ch v 3))
               else if m = str ''LAB'' then labToRgbValues env (ch v 0) (ch v 1) (ch v 2)
               else if m = str ''RGB'' then [ch v 0, ch v 1, ch v 2]
               else if m = str ''Gray'' then [ch v 0, ch v 0, ch v 0]
               else [0, 0, 0])"
    unfolding blockToRgb_def m_def v_def Let_def by (rule refl)
  from assms(2) consider
      (lab) "m = str ''LAB''" "list_all (\<lambda>x. \<bar>x\<bar> \<le> 10 ^ 100) v"
    | (unit) "list_all (\<lambda>x. 0 \<le> x \<and> x \<le> 1) v"
    unfolding m_def v_def by blast
  then have fin: "m = str ''LAB'' \<Longrightarrow> list_all (\<lambda>x. \<bar>x\<bar> \<le> 10 ^ 100) v"
  proof cases
    case lab
    then show ?thesis by simp
  next
    case unit
    then show ?thesis using unit_finite unfolding list_all_length by blast
  qed
  show ?thesis
  proof (cases "v = []")
    case True
    with eq z show ?thesis by simp
  next
    case nonempty: False
    show ?thesis
    proof (cases "authority env blk")
      case (Some rgb)
      with eq nonempty authority_inUnit [OF assms(1) Some] show ?thesis by simp
    next
      case None
      show ?thesis
      proof (cases "m = str ''LAB''")
        case True
        have "inUnit (labToRgbValues env (ch v 0) (ch v 1) (ch v 2))"
          by (rule labToRgbValues_inUnit) (rule ch_finite [OF fin [OF True]])+
        with eq nonempty None True show ?thesis by (simp add: str_neq)
      next
        case False
        with assms(2) have "list_all (\<lambda>x. 0 \<le> x \<and> x \<le> 1) v"
          unfolding m_def v_def by blast
        then have u: "\<And>i. 0 \<le> ch v i \<and> ch v i \<le> 1" by (rule ch_unit)
        have c: "inUnit (map (\<lambda>x. fdiv env x 255) (cmykToProfileRGB env (ch v 0) (ch v 1) (ch v 2) (ch v 3)))"
          by (rule cmykToProfileRGB_inUnit [OF assms(1)]) (rule u)+
        have r: "inUnit [ch v 0, ch v 1, ch v 2]" "inUnit [ch v 0, ch v 0, ch v 0]"
          using u by (simp_all add: inUnit_def)
        from eq nonempty None False c r z show ?thesis by simp
      qed
    qed
  qed
qed

theorem blockToRgb_inUnit_witness:
  "ieeeDouble (rounding sampleEnv)
   \<and> list_all (\<lambda>x. 0 \<le> x \<and> x \<le> 1)
     (case values (sampleColor ''Custom'' ''CMYK'' [1 / 2, 0, 0, 0]) of None \<Rightarrow> [] | Some vs \<Rightarrow> vs)
   \<and> inUnit (blockToRgb sampleEnv (sampleColor ''Custom'' ''CMYK'' [1 / 2, 0, 0, 0]))"
proof -
  have h: "list_all (\<lambda>x. 0 \<le> x \<and> x \<le> 1)
     (case values (sampleColor ''Custom'' ''CMYK'' [1 / 2, 0, 0, 0]) of None \<Rightarrow> [] | Some vs \<Rightarrow> vs)"
    by (simp add: sampleColor_def)
  from h sample_rounding(2) blockToRgb_inUnit [OF sample_rounding(2) disjI2, OF h]
  show ?thesis by blast
qed

text \<open>
  Claim C6 as stated fails: RGB values pass through unchanged, so a stored channel value
  outside \<open>[0, 1]\<close> is returned as it is.
\<close>

theorem blockToRgb_inUnit_counterexample:
  "blockToRgb sampleEnv (sampleColor ''Custom'' ''RGB '' [2, 0, 0]) = [2, 0, 0]
   \<and> \<not> inUnit [2, 0, 0]"
  by (simp add: blockToRgb_def authority_def sampleColor_def sampleEnv_def orElse_def
        truthy_def trim_def isWhiteSpace_def str_def ch_def inUnit_def Let_def)

subsection \<open>CMYK without the colour engine\<close>

lemma ch_four:
  "ch [c, m, y, k] 0 = c" "ch [c, m, y, k] 1 = m" "ch [c, m, y, k] 2 = y" "ch [c, m, y, k] 3 = k"
  "ch [c, m, y, k] (Suc 0) = m"
  by (simp_all add: ch_def)

text \<open>
  Claim C4, amended. Let a CMYK block hold \<open>(c, m, y, k)\<close> in \<open>[0, 1]\<close>, let the authority
  check not apply to it, and let the colour engine be uninitialised or fail. Then
  \<open>blockToRgb\<close> returns the analytic values rounded to 8-bit levels: each component is
  \<open>Math.round\<close> of the product \<open>255 * (1 - c) * (1 - k)\<close> as the doubles compute it, divided
  by 255; likewise for \<open>m\<close> and \<open>y\<close>. The result lies in \<open>[0, 1]\<close>, each component is
  within \<open>0.002\<close> of \<open>(1 - c) (1 - k)\<close> (half an 8-bit level and the rounding of the
  doubles), and no error is possible: the function is total.
\<close>

theorem blockToRgb_cmyk_fallback:
  assumes "ieeeDouble (rounding env)"
      and "trim (orElse (model blk) (str ''RGB'')) = str ''CMYK''"
      and "values blk = Some [c, m, y, k]"
      and "0 \<le> c \<and> c \<le> 1" and "0 \<le> m \<and> m \<le> 1" and "0 \<le> y \<and> y \<le> 1" and "0 \<le> k \<and> k \<le> 1"
      and "authority env blk = None"
      and "engineUnavailable env c m y k"
  shows "blockToRgb env blk =
           [fdiv env (real_of_int (jsRound (fmul env (fmul env 255 (fsub env 1 c)) (fsub env 1 k)))) 255,
            fdiv env (real_of_int (jsRound (fmul env (fmul env 255 (fsub env 1 m)) (fsub env 1 k)))) 255,
            fdiv env (real_of_int (jsRound (fmul env (fmul env 255 (fsub env 1 y)) (fsub env 1 k)))) 255]
       \<and> inUnit (blockToRgb env blk)
       \<and> \<bar>blockToRgb env blk ! 0 - (1 - c) * (1 - k)\<bar> \<le> 1 / 500
       \<and> \<bar>blockToRgb env blk ! 1 - (1 - m) * (1 - k)\<bar> \<le> 1 / 500
       \<and> \<bar>blockToRgb env blk ! 2 - (1 - y) * (1 - k)\<bar> \<le> 1 / 500"
proof -
  from assms(9) have s: "cmykToProfileRGB env c m y k = simpleCmykToRgb env c m y k"
    by (auto simp: cmykToProfileRGB_def engineUnavailable_def)
  have "blockToRgb env blk = map (\<lambda>x. fdiv env x 255) (cmykToProfileRGB env c m y k)"
    using assms(2,3,8) by (simp add: blockToRgb_def Let_def ch_four)
  with s have eq: "blockToRgb env blk = map (\<lambda>x. fdiv env x 255) (simpleCmykToRgb env c m y k)"
    by simp
  then have e: "blockToRgb env blk =
           [fdiv env (real_of_int (jsRound (fmul env (fmul env 255 (fsub env 1 c)) (fsub env 1 k)))) 255,
            fdiv env (real_of_int (jsRound (fmul env (fmul env 255 (fsub env 1 m)) (fsub env 1 k)))) 255,
            fdiv env (real_of_int (jsRound (fmul env (fmul env 255 (fsub env 1 y)) (fsub env 1 k)))) 255]"
    by (simp add: simpleCmykToRgb_def)
  have u: "inUnit (blockToRgb env blk)"
    unfolding eq using assms(1,4-7) by (rule simpleCmykToRgb_inUnit)
  show ?thesis
    using u fallback_channel [OF assms(1,4,7)] fallback_channel [OF assms(1,5,7)]
      fallback_channel [OF assms(1,6,7)]
    unfolding e by simp
qed

lemma sample_custom_cmyk:
  "trim (orElse (model (sampleColor ''Custom'' ''CMYK'' vs)) (str ''RGB'')) = str ''CMYK''"
  "values (sampleColor ''Custom'' ''CMYK'' vs) = Some vs"
  "authority sampleEnv (sampleColor ''Custom'' ''CMYK'' vs) = None"
  "engineUnavailable sampleEnv c m y k"
proof -
  show "trim (orElse (model (sampleColor ''Custom'' ''CMYK'' vs)) (str ''RGB'')) = str ''CMYK''"
    by (simp add: sampleColor_def orElse_def trim_tags str_neq)
  show "values (sampleColor ''Custom'' ''CMYK'' vs) = Some vs"
    by (simp add: sampleColor_def)
  show "authority sampleEnv (sampleColor ''Custom'' ''CMYK'' vs) = None"
    by (simp add: sampleColor_def authority_def truthy_def sampleEnv_def str_def)
  show "engineUnavailable sampleEnv c m y k"
    by (simp add: sampleEnv_def engineUnavailable_def)
qed

theorem blockToRgb_cmyk_fallback_witness:
  "ieeeDouble (rounding sampleEnv)
   \<and> trim (orElse (model (sampleColor ''Custom'' ''CMYK'' [1 / 2, 0, 0, 0])) (str ''RGB'')) = str ''CMYK''
   \<and> values (sampleColor ''Custom'' ''CMYK'' [1 / 2, 0, 0, 0]) = Some [1 / 2, 0, 0, 0]
   \<and> authority sampleEnv (sampleColor ''Custom'' ''CMYK'' [1 / 2, 0, 0, 0]) = None
   \<and> engineUnavailable sampleEnv (1 / 2) 0 0 0
   \<and> blockToRgb sampleEnv (sampleColor ''Custom'' ''CMYK'' [1 / 2, 0, 0, 0]) = [128 / 255, 1, 1]
   \<and> inUnit (blockToRgb sampleEnv (sampleColor ''Custom'' ''CMYK'' [1 / 2, 0, 0, 0]))
   \<and> \<bar>blockToRgb sampleEnv (sampleColor ''Custom'' ''CMYK'' [1 / 2, 0, 0, 0]) ! 0
        - (1 - 1 / 2) * (1 - 0)\<bar> \<le> 1 / 500"
proof -
  have r: "0 \<le> (1 / 2 :: real) \<and> (1 / 2 :: real) \<le> 1" "0 \<le> (0 :: real) \<and> (0 :: real) \<le> 1"
    by simp_all
  note t = blockToRgb_cmyk_fallback
             [OF sample_rounding(2) sample_custom_cmyk(1) sample_custom_cmyk(2) r(1) r(2) r(2) r(2)
                 sample_custom_cmyk(3) sample_custom_cmyk(4)]
  have "blockToRgb sampleEnv (sampleColor ''Custom'' ''CMYK'' [1 / 2, 0, 0, 0]) = [128 / 255, 1, 1]"
    using t by (simp add: jsRound_def arith_defs sample_rounding(1))
  with t sample_custom_cmyk sample_rounding(2) show ?thesis by simp
qed

text \<open>
  Claim C4 as stated fails because of \<open>Math.round\<close>: for \<open>(c, m, y, k) = (1/2, 0, 0, 0)\<close>
  the product is \<open>127.5\<close>, in doubles as in exact arithmetic, and is rounded to \<open>128\<close>;
  the red component is \<open>128/255\<close>, not \<open>255 (1 - 1/2) (1 - 0) / 255 = 1/2\<close>.
\<close>

theorem blockToRgb_cmyk_fallback_counterexample:
  "trim (orElse (model (sampleColor ''Custom'' ''CMYK'' [1 / 2, 0, 0, 0])) (str ''RGB'')) = str ''CMYK''
   \<and> engineUnavailable sampleEnv (1 / 2) 0 0 0
   \<and> blockToRgb sampleEnv (sampleColor ''Custom'' ''CMYK'' [1 / 2, 0, 0, 0]) = [128 / 255, 1, 1]
   \<and> blockToRgb sampleEnv (sampleColor ''Custom'' ''CMYK'' [1 / 2, 0, 0, 0])
       \<noteq> [255 * (1 - 1 / 2) * (1 - 0) / 255, 255 * (1 - 0) * (1 - 0) / 255,
           255 * (1 - 0) * (1 - 0) / 255]"
proof -
  have "cmykToProfileRGB sampleEnv (1 / 2) 0 0 0 = [128, 255, 255]"
    by (simp add: cmykToProfileRGB_def sampleEnv_def simpleCmykToRgb_def jsRound_def arith_defs)
  then have "blockToRgb sampleEnv (sampleColor ''Custom'' ''CMYK'' [1 / 2, 0, 0, 0]) = [128 / 255, 1, 1]"
    using sample_custom_cmyk(1,3) [of "[1 / 2, 0, 0, 0]"]
    by (simp add: blockToRgb_def Let_def sampleColor_def ch_four fdiv_def sample_rounding(1))
  then show ?thesis using sample_custom_cmyk by simp
qed

subsection \<open>From RGB to CMYK and back\<close>

text \<open>One channel of the way from RGB to CMYK and back, as the analytic path returns it.\<close>

lemma channel_back:
  assumes fl: "ieeeDouble (rounding env)" and r: "0 \<le> r \<and> r \<le> 1"
      and k: "k = rounding env z" "0 \<le> k" "k \<le> fsub env 1 r" "k \<noteq> 1"
  shows "\<bar>fdiv env (real_of_int (jsRound (fmul env
             (fmul env 255 (fsub env 1 (fdiv env (fsub env (fsub env 1 r) k) (fsub env 1 k))))
             (fsub env 1 k)))) 255 - r\<bar> \<le> 1 / 500"
proof -
  from r have r': "0 \<le> r" "r \<le> 1" by simp_all
  from k have k': "0 \<le> rounding env z" "rounding env z \<le> rounding env (1 - r)" "rounding env z \<noteq> 1"
    by (simp_all add: fsub_def)
  show ?thesis
    unfolding fdiv_def fmul_def fsub_def k(1)
    using level_back [OF fl ink_back [OF fl r' k']] by blast
qed

lemma black_is_double:
  "\<exists>z. min (fsub env 1 r) (min (fsub env 1 g) (fsub env 1 b)) = rounding env z"
  unfolding fsub_def min_def by (simp; blast)

text \<open>
  Claim C5, amended. For every RGB triplet in the unit cube, \<open>rgbToCmyk\<close> followed by the
  analytic path from CMYK to RGB, both calculating in doubles, recovers each channel
  within \<open>0.002\<close> (half an 8-bit level and the rounding of the doubles), black included:
  when the doubles find \<open>k = 1\<close> every channel is below \<open>10^-15\<close> and comes back as \<open>0\<close>.
\<close>

theorem rgbToCmyk_analyticRgb_roundtrip:
  assumes "ieeeDouble (rounding env)"
      and "0 \<le> r \<and> r \<le> 1" and "0 \<le> g \<and> g \<le> 1" and "0 \<le> b \<and> b \<le> 1"
  shows "length (analyticRgb env (rgbToCmyk env r g b)) = 3
       \<and> \<bar>analyticRgb env (rgbToCmyk env r g b) ! 0 - r\<bar> \<le> 1 / 500
       \<and> \<bar>analyticRgb env (rgbToCmyk env r g b) ! 1 - g\<bar> \<le> 1 / 500
       \<and> \<bar>analyticRgb env (rgbToCmyk env r g b) ! 2 - b\<bar> \<le> 1 / 500"
proof -
  note fl = assms(1)
  define c where "c = fsub env 1 r"
  define m where "m = fsub env 1 g"
  define y where "y = fsub env 1 b"
  define k where "k = min c (min m y)"
  have cmy: "0 \<le> c \<and> c \<le> 1" "0 \<le> m \<and> m \<le> 1" "0 \<le> y \<and> y \<le> 1"
    unfolding c_def m_def y_def fsub_def using assms(2-4) by (intro ieee_unit [OF fl]; simp)+
  have k: "0 \<le> k" "k \<le> c" "k \<le> m" "k \<le> y" using cmy by (simp_all add: k_def)
  show ?thesis
  proof (cases "k = 1")
    case True
    with k cmy have one: "c = 1" "m = 1" "y = 1" by simp_all
    have e: "\<bar>c - (1 - r)\<bar> \<le> 1 / 1000000000000000" "\<bar>m - (1 - g)\<bar> \<le> 1 / 1000000000000000"
      "\<bar>y - (1 - b)\<bar> \<le> 1 / 1000000000000000"
      unfolding c_def m_def y_def fsub_def using assms(2-4) by (intro ieee_error_unit [OF fl]; simp)+
    from True have "rgbToCmyk env r g b = [0, 0, 0, 1]"
      unfolding rgbToCmyk_def k_def c_def m_def y_def Let_def by (rule if_P)
    then have "analyticRgb env (rgbToCmyk env r g b) = [0, 0, 0]"
      by (simp add: analyticRgb_def ch_four simpleCmykToRgb_def jsRound_def arith_defs
            ieee_exact [OF fl])
    then show ?thesis using e one by simp
  next
    case False
    obtain z where z: "k = rounding env z"
      using black_is_double [of env r g b] unfolding k_def c_def m_def y_def by blast
    from False have "rgbToCmyk env r g b =
        [fdiv env (fsub env c k) (fsub env 1 k), fdiv env (fsub env m k) (fsub env 1 k),
         fdiv env (fsub env y k) (fsub env 1 k), k]"
      unfolding rgbToCmyk_def k_def c_def m_def y_def Let_def by (rule if_not_P)
    then have "analyticRgb env (rgbToCmyk env r g b) =
        [fdiv env (real_of_int (jsRound (fmul env
             (fmul env 255 (fsub env 1 (fdiv env (fsub env (fsub env 1 r) k) (fsub env 1 k))))
             (fsub env 1 k)))) 255,
         fdiv env (real_of_int (jsRound (fmul env
             (fmul env 255 (fsub env 1 (fdiv env (fsub env (fsub env 1 g) k) (fsub env 1 k))))
             (fsub env 1 k)))) 255,
         fdiv env (real_of_int (jsRound (fmul env
             (fmul env 255 (fsub env 1 (fdiv env (fsub env (fsub env 1 b) k) (fsub env 1 k))))
             (fsub env 1 k)))) 255]"
      by (simp add: analyticRgb_def ch_four simpleCmykToRgb_def c_def m_def y_def)
    then show ?thesis
      using channel_back [OF fl assms(2) z k(1) k(2) [unfolded c_def] False]
        channel_back [OF fl assms(3) z k(1) k(3) [unfolded m_def] False]
        channel_back [OF fl assms(4) z k(1) k(4) [unfolded y_def] False]
      by simp
  qed
qed

theorem rgbToCmyk_analyticRgb_roundtrip_witness:
  "ieeeDouble (rounding sampleEnv)
   \<and> (0 \<le> (1 / 500 :: real) \<and> (1 / 500 :: real) \<le> 1)
   \<and> \<bar>analyticRgb sampleEnv (rgbToCmyk sampleEnv (1 / 500) (1 / 500) (1 / 500)) ! 0 - 1 / 500\<bar> \<le> 1 / 500"
proof -
  have h: "0 \<le> (1 / 500 :: real) \<and> (1 / 500 :: real) \<le> 1" by simp
  from h sample_rounding(2) rgbToCmyk_analyticRgb_roundtrip [OF sample_rounding(2) h h h]
  show ?thesis by blast
qed

text \<open>
  Claim C5 as stated fails: the bound \<open>1e-3\<close> is smaller than half an 8-bit level. The grey
  \<open>(0.002, 0.002, 0.002)\<close> becomes \<open>(0, 0, 0, 0.998)\<close> and comes back as \<open>1/255\<close> per channel,
  which is \<open>0.0019\<close> away; the doubles give the same up to their rounding.
\<close>

theorem rgbToCmyk_analyticRgb_roundtrip_counterexample:
  "(0 \<le> (1 / 500 :: real) \<and> (1 / 500 :: real) \<le> 1)
   \<and> rgbToCmyk sampleEnv (1 / 500) (1 / 500) (1 / 500) = [0, 0, 0, 499 / 500]
   \<and> analyticRgb sampleEnv (rgbToCmyk sampleEnv (1 / 500) (1 / 500) (1 / 500)) = [1 / 255, 1 / 255, 1 / 255]
   \<and> \<not> \<bar>analyticRgb sampleEnv (rgbToCmyk sampleEnv (1 / 500) (1 / 500) (1 / 500)) ! 0 - 1 / 500\<bar> \<le> 1 / 1000"
proof -
  have c: "rgbToCmyk sampleEnv (1 / 500) (1 / 500) (1 / 500) = [0, 0, 0, 499 / 500]"
    by (simp add: rgbToCmyk_def Let_def arith_defs sample_rounding(1))
  have a: "analyticRgb sampleEnv [0, 0, 0, 499 / 500] = [1 / 255, 1 / 255, 1 / 255]"
    by (simp add: analyticRgb_def ch_four simpleCmykToRgb_def jsRound_def arith_defs
          sample_rounding(1))
  show ?thesis unfolding c a by simp
qed

section \<open>Properties of the hierarchical sort\<close>

subsection \<open>The tree holds the blocks in their order\<close>

lemma addChild_nonempty: "st \<noteq> [] \<Longrightarrow> addChild n st \<noteq> []"
  by (cases st) auto

lemma length_addChild: "length (addChild n st) = length st"
  by (cases st) auto

lemma unwind_addChild: "st \<noteq> [] \<Longrightarrow> unwind (addChild n st) = unwind st @ flatten n"
  by (cases st) (auto simp: unwind_def frameBlocks_def)

lemma flatten_leaf: "flatten (leaf b) = [b]"
  by (simp add: leaf_def)

lemma pushBlock_nonempty: "st \<noteq> [] \<Longrightarrow> pushBlock st b \<noteq> []"
proof (cases "type b")
  case groupStart
  then show ?thesis by (simp add: pushBlock_def)
next
  case groupEnd
  assume ne: "st \<noteq> []"
  show ?thesis
  proof (cases "length st > 1")
    case True
    then obtain g cs f fs where st: "st = (g, cs) # f # fs"
      by (cases st; simp; cases "tl st"; auto)
    then show ?thesis using groupEnd by (simp add: pushBlock_def addChild_nonempty)
  next
    case False
    with ne groupEnd show ?thesis by (simp add: pushBlock_def addChild_nonempty)
  qed
next
  case color
  assume "st \<noteq> []"
  with color show ?thesis by (simp add: pushBlock_def addChild_nonempty)
qed

lemma unwind_pushBlock: "st \<noteq> [] \<Longrightarrow> unwind (pushBlock st b) = unwind st @ [b]"
proof (cases "type b")
  case groupStart
  then show ?thesis by (simp add: pushBlock_def unwind_def frameBlocks_def)
next
  case groupEnd
  assume ne: "st \<noteq> []"
  show ?thesis
  proof (cases "length st > 1")
    case True
    then obtain g cs f fs where st: "st = (g, cs) # f # fs"
      by (cases st; simp; cases "tl st"; auto)
    have "unwind (addChild (TreeNode g cs (Some b)) (f # fs)) = unwind (f # fs) @ flatten (TreeNode g cs (Some b))"
      by (rule unwind_addChild) simp
    then show ?thesis using groupEnd st
      by (simp add: pushBlock_def unwind_def frameBlocks_def)
  next
    case False
    with ne groupEnd show ?thesis
      by (simp add: pushBlock_def unwind_addChild flatten_leaf)
  qed
next
  case color
  assume "st \<noteq> []"
  with color show ?thesis by (simp add: pushBlock_def unwind_addChild flatten_leaf)
qed

lemma foldl_pushBlock_nonempty: "st \<noteq> [] \<Longrightarrow> foldl pushBlock st bs \<noteq> []"
  by (induction bs arbitrary: st) (simp_all add: pushBlock_nonempty)

lemma unwind_foldl: "st \<noteq> [] \<Longrightarrow> unwind (foldl pushBlock st bs) = unwind st @ bs"
  by (induction bs arbitrary: st) (simp_all add: pushBlock_nonempty unwind_pushBlock)

lemma flatten_closeAll: "st \<noteq> [] \<Longrightarrow> flatten (closeAll st) = unwind st"
proof (induction st rule: closeAll.induct)
  case 1
  then show ?case by simp
next
  case (2 r cs)
  show ?case by (simp add: unwind_def frameBlocks_def)
next
  case (3 g cs f fs)
  have "flatten (closeAll (addChild (TreeNode g cs None) (f # fs))) = unwind (addChild (TreeNode g cs None) (f # fs))"
    by (rule "3.IH") (simp add: addChild_nonempty)
  also have "\<dots> = unwind (f # fs) @ flatten (TreeNode g cs None)"
    by (rule unwind_addChild) simp
  finally show ?case by (simp add: unwind_def frameBlocks_def)
qed

lemma flatten_buildTree: "flatten (buildTree bs) = rootBlock # bs"
proof -
  have "flatten (buildTree bs) = unwind (foldl pushBlock [(rootBlock, [])] bs)"
    unfolding buildTree_def by (rule flatten_closeAll) (simp add: foldl_pushBlock_nonempty)
  also have "\<dots> = unwind [(rootBlock, [])] @ bs"
    by (rule unwind_foldl) simp
  finally show ?thesis by (simp add: unwind_def frameBlocks_def)
qed

lemma flattenRoot_tl: "flattenRoot n = tl (flatten n)"
  by (cases n) (simp add: flattenRoot_def)

lemma flattenRoot_buildTree: "flattenRoot (buildTree bs) = bs"
  by (simp add: flattenRoot_tl flatten_buildTree)

lemma block_buildTree: "block (buildTree bs) = rootBlock"
  using flatten_buildTree [of bs] by (cases "buildTree bs") simp

subsection \<open>Sorting permutes\<close>

lemma mset_insertBy: "mset (insertBy cmp x xs) = add_mset x (mset xs)"
  by (induction xs) auto

lemma mset_arraySort: "mset (arraySort cmp xs) = mset xs"
  unfolding arraySort_def by (induction xs) (simp_all add: mset_insertBy)

lemma set_arraySort: "set (arraySort cmp xs) = set xs"
  using mset_arraySort [of cmp xs] by (metis set_mset_mset)

lemma mset_concat_map:
  "mset (concat (map f xs)) = (\<Sum>x\<in>#mset xs. mset (f x))"
  by (induction xs) simp_all

lemma mset_concat_map_perm:
  assumes "mset xs = mset ys"
  shows "mset (concat (map f xs)) = mset (concat (map f ys))"
  by (simp add: mset_concat_map assms)

lemma block_sortNode: "block (sortNode env crit n) = block n"
  by (cases n) simp

lemma endBlock_sortNode: "endBlock (sortNode env crit n) = endBlock n"
  by (cases n) simp

lemma mset_flatten_sortNode: "mset (flatten (sortNode env crit n)) = mset (flatten n)"
proof (induction n)
  case (TreeNode b cs e)
  have "mset (concat (map flatten (arraySort (compareNodes env crit) (map (sortNode env crit) cs))))
      = mset (concat (map flatten (map (sortNode env crit) cs)))"
    by (rule mset_concat_map_perm) (rule mset_arraySort)
  also have "\<dots> = (\<Sum>c\<in>#mset cs. mset (flatten (sortNode env crit c)))"
    by (simp add: mset_concat_map image_mset.compositionality comp_def)
  also have "\<dots> = (\<Sum>c\<in>#mset cs. mset (flatten c))"
    by (rule arg_cong [where f = sum_mset], rule image_mset_cong) (simp add: TreeNode.IH)
  also have "\<dots> = mset (concat (map flatten cs))"
    by (simp add: mset_concat_map)
  finally show ?case by simp
qed

lemma mset_flatten_sortTree:
  "mset (concat (map flatten (sortTree env crit cs))) = mset (concat (map flatten cs))"
proof -
  have "mset (concat (map flatten (sortTree env crit cs)))
      = mset (concat (map flatten (map (sortNode env crit) cs)))"
    unfolding sortTree_def by (rule mset_concat_map_perm) (rule mset_arraySort)
  also have "\<dots> = (\<Sum>c\<in>#mset cs. mset (flatten (sortNode env crit c)))"
    by (simp add: mset_concat_map image_mset.compositionality comp_def)
  also have "\<dots> = mset (concat (map flatten cs))"
    by (simp add: mset_concat_map mset_flatten_sortNode)
  finally show ?thesis .
qed

lemma mset_sortBlocksHierarchically:
  "mset (sortBlocksHierarchically env bs crit) = mset bs"
proof -
  obtain r cs e where t: "buildTree bs = TreeNode r cs e" by (cases "buildTree bs")
  have "mset (sortBlocksHierarchically env bs crit)
      = mset (concat (map flatten (sortTree env crit cs))) + mset (case e of None \<Rightarrow> [] | Some x \<Rightarrow> [x])"
    by (simp add: sortBlocksHierarchically_def Let_def t flattenRoot_def)
  also have "\<dots> = mset (concat (map flatten cs)) + mset (case e of None \<Rightarrow> [] | Some x \<Rightarrow> [x])"
    by (simp only: mset_flatten_sortTree)
  also have "\<dots> = mset (flattenRoot (buildTree bs))"
    by (simp add: t flattenRoot_def)
  finally show ?thesis by (simp add: flattenRoot_buildTree)
qed

subsection \<open>Nesting of a flattened tree\<close>

lemma nesting_closed_list:
  assumes "\<And>c ctx rest. c \<in> set cs \<Longrightarrow> closedNode c \<Longrightarrow>
             nesting ctx (flatten c @ rest) = nodeNesting ctx c @ nesting ctx rest"
      and "list_all closedNode cs"
  shows "nesting ctx (concat (map flatten cs) @ rest)
       = concat (map (nodeNesting ctx) cs) @ nesting ctx rest"
  using assms
proof (induction cs)
  case Nil
  show ?case by simp
next
  case (Cons c cs)
  have "nesting ctx (flatten c @ (concat (map flatten cs) @ rest))
      = nodeNesting ctx c @ nesting ctx (concat (map flatten cs) @ rest)"
    using Cons.prems by simp
  moreover have "nesting ctx (concat (map flatten cs) @ rest)
      = concat (map (nodeNesting ctx) cs) @ nesting ctx rest"
    using Cons.prems by (intro Cons.IH) simp_all
  ultimately show ?case by simp
qed

lemma nesting_closed:
  "closedNode n \<Longrightarrow> nesting ctx (flatten n @ rest) = nodeNesting ctx n @ nesting ctx rest"
proof (induction n arbitrary: ctx rest)
  case (TreeNode b cs e)
  show ?case
  proof (cases "type b")
    case groupStart
    with TreeNode.prems obtain x where e: "e = Some x" "type x = groupEnd"
      and cl: "list_all closedNode cs"
      by (auto split: option.splits)
    have "nesting (b # ctx) (concat (map flatten cs) @ (x # rest))
        = concat (map (nodeNesting (b # ctx)) cs) @ nesting (b # ctx) (x # rest)"
      using TreeNode.IH cl by (rule nesting_closed_list)
    then show ?thesis using groupStart e by simp
  next
    case groupEnd
    with TreeNode.prems show ?thesis by simp
  next
    case color
    with TreeNode.prems show ?thesis by simp
  qed
qed

lemma nesting_rootItem:
  assumes "rootItem n"
  shows "nesting [] (flatten n @ rest) = nodeNesting [] n @ nesting [] rest"
proof (cases "closedNode n")
  case True
  then show ?thesis by (rule nesting_closed)
next
  case False
  with assms have "type (block n) = groupEnd" "children n = []" "endBlock n = None"
    by (simp_all add: rootItem_def)
  then show ?thesis by (cases n) simp
qed

lemma nesting_rootItems:
  "list_all rootItem cs \<Longrightarrow>
   nesting [] (concat (map flatten cs) @ rest) = concat (map (nodeNesting []) cs) @ nesting [] rest"
proof (induction cs)
  case Nil
  show ?case by simp
next
  case (Cons c cs)
  then have "nesting [] (flatten c @ (concat (map flatten cs) @ rest))
      = nodeNesting [] c @ nesting [] (concat (map flatten cs) @ rest)"
    by (intro nesting_rootItem) simp
  with Cons show ?case by simp
qed

lemma mset_nodeNesting_sortNode:
  "mset (nodeNesting ctx (sortNode env crit n)) = mset (nodeNesting ctx n)"
proof (induction n arbitrary: ctx)
  case (TreeNode b cs e)
  have "mset (concat (map (nodeNesting (b # ctx))
                (arraySort (compareNodes env crit) (map (sortNode env crit) cs))))
      = mset (concat (map (nodeNesting (b # ctx)) (map (sortNode env crit) cs)))"
    by (rule mset_concat_map_perm) (rule mset_arraySort)
  also have "\<dots> = (\<Sum>c\<in>#mset cs. mset (nodeNesting (b # ctx) (sortNode env crit c)))"
    by (simp add: mset_concat_map image_mset.compositionality comp_def)
  also have "\<dots> = (\<Sum>c\<in>#mset cs. mset (nodeNesting (b # ctx) c))"
    by (rule arg_cong [where f = sum_mset], rule image_mset_cong) (simp add: TreeNode.IH)
  also have "\<dots> = mset (concat (map (nodeNesting (b # ctx)) cs))"
    by (simp add: mset_concat_map)
  finally show ?case by simp
qed

lemma mset_nodeNesting_sortTree:
  "mset (concat (map (nodeNesting ctx) (sortTree env crit cs)))
   = mset (concat (map (nodeNesting ctx) cs))"
proof -
  have "mset (concat (map (nodeNesting ctx) (sortTree env crit cs)))
      = mset (concat (map (nodeNesting ctx) (map (sortNode env crit) cs)))"
    unfolding sortTree_def by (rule mset_concat_map_perm) (rule mset_arraySort)
  also have "\<dots> = (\<Sum>c\<in>#mset cs. mset (nodeNesting ctx (sortNode env crit c)))"
    by (simp add: mset_concat_map image_mset.compositionality comp_def)
  also have "\<dots> = mset (concat (map (nodeNesting ctx) cs))"
    by (simp add: mset_concat_map mset_nodeNesting_sortNode)
  finally show ?thesis .
qed

lemma arraySort_Nil: "arraySort cmp xs = [] \<longleftrightarrow> xs = []"
  using mset_arraySort [of cmp xs] by (metis mset_zero_iff)

lemma closedNode_sortNode: "closedNode (sortNode env crit n) = closedNode n"
proof (induction n)
  case (TreeNode b cs e)
  have "list_all closedNode (arraySort (compareNodes env crit) (map (sortNode env crit) cs))
      = list_all closedNode cs"
    using TreeNode.IH by (simp add: list_all_iff set_arraySort)
  moreover have "arraySort (compareNodes env crit) (map (sortNode env crit) cs) = [] \<longleftrightarrow> cs = []"
    by (simp add: arraySort_Nil)
  ultimately show ?case by (simp split: BlockType.splits)
qed

lemma rootItem_sortNode: "rootItem (sortNode env crit n) = rootItem n"
proof -
  have "children (sortNode env crit n) = [] \<longleftrightarrow> children n = []"
    by (cases n) (simp add: arraySort_Nil)
  then show ?thesis
    by (simp add: rootItem_def closedNode_sortNode block_sortNode endBlock_sortNode)
qed

lemma rootItems_sortTree: "list_all rootItem (sortTree env crit cs) = list_all rootItem cs"
  by (simp add: sortTree_def list_all_iff set_arraySort rootItem_sortNode)

subsection \<open>The stack while the blocks are read\<close>

lemma wfStack_nonempty: "wfStack st \<Longrightarrow> st \<noteq> []"
  by (cases st) auto

lemma closed_rootItem: "closedNode n \<Longrightarrow> rootItem n"
  by (simp add: rootItem_def)

lemma wfStack_addChild: "wfStack st \<Longrightarrow> closedNode n \<Longrightarrow> wfStack (addChild n st)"
proof (induction st rule: wfStack.induct)
  case 1
  then show ?case by simp
next
  case (2 r cs)
  then show ?case by (simp add: closed_rootItem)
next
  case (3 g cs f fs)
  then show ?case by simp
qed

lemma closedNode_leaf: "type b = color \<Longrightarrow> closedNode (leaf b)"
  by (simp add: leaf_def)

lemma rootItem_orphan: "type b = groupEnd \<Longrightarrow> rootItem (leaf b)"
  by (simp add: leaf_def rootItem_def)

lemma wfStack_pushBlock: "wfStack st \<Longrightarrow> wfStack (pushBlock st b)"
proof (cases "type b")
  case groupStart
  assume "wfStack st"
  then show ?thesis using groupStart by (cases st) (auto simp: pushBlock_def)
next
  case groupEnd
  assume wf: "wfStack st"
  show ?thesis
  proof (cases st rule: wfStack.cases)
    case 1
    with wf show ?thesis by simp
  next
    case (2 r cs)
    with wf groupEnd show ?thesis by (simp add: pushBlock_def rootItem_orphan)
  next
    case (3 g cs f fs)
    with wf groupEnd have "closedNode (TreeNode g cs (Some b))" "wfStack (f # fs)"
      by simp_all
    then have "wfStack (addChild (TreeNode g cs (Some b)) (f # fs))"
      by (intro wfStack_addChild)
    with 3 groupEnd show ?thesis by (simp add: pushBlock_def)
  qed
next
  case color
  assume "wfStack st"
  then show ?thesis using color by (simp add: pushBlock_def wfStack_addChild closedNode_leaf)
qed

lemma wfStack_foldl: "wfStack st \<Longrightarrow> wfStack (foldl pushBlock st bs)"
  by (induction bs arbitrary: st) (simp_all add: wfStack_pushBlock)

lemma length_pushBlock:
  "st \<noteq> [] \<Longrightarrow> length (pushBlock st b) =
     (case type b of groupStart \<Rightarrow> Suc (length st)
      | groupEnd \<Rightarrow> Suc (length st - 1 - 1)
      | color \<Rightarrow> length st)"
proof (cases "type b")
  case groupStart
  then show ?thesis by (simp add: pushBlock_def)
next
  case groupEnd
  assume ne: "st \<noteq> []"
  show ?thesis
  proof (cases st rule: wfStack.cases)
    case 1
    with ne show ?thesis by simp
  next
    case (2 r cs)
    with groupEnd show ?thesis by (simp add: pushBlock_def)
  next
    case (3 g cs f fs)
    with groupEnd show ?thesis by (simp add: pushBlock_def length_addChild)
  qed
next
  case color
  assume "st \<noteq> []"
  with color show ?thesis by (simp add: pushBlock_def length_addChild)
qed

lemma length_foldl_pushBlock:
  "st \<noteq> [] \<Longrightarrow> length (foldl pushBlock st bs) = Suc (finalDepth (length st - 1) bs)"
proof (induction bs arbitrary: st)
  case Nil
  then show ?case by (cases st) simp_all
next
  case (Cons b bs)
  have "length (foldl pushBlock (pushBlock st b) bs) = Suc (finalDepth (length (pushBlock st b) - 1) bs)"
    by (rule Cons.IH) (simp add: pushBlock_nonempty Cons.prems)
  then show ?case
    using length_pushBlock [OF Cons.prems, of b] Cons.prems
    by (cases st; cases "type b") simp_all
qed

lemma buildTree_closed:
  assumes "allGroupsClosed bs"
  shows "\<exists>cs. buildTree bs = TreeNode rootBlock cs None \<and> list_all rootItem cs
              \<and> concat (map flatten cs) = bs"
proof -
  define st where "st = foldl pushBlock [(rootBlock, [])] bs"
  have "length st = Suc (finalDepth (length [(rootBlock, [] :: TreeNode list)] - 1) bs)"
    unfolding st_def by (rule length_foldl_pushBlock) simp
  with assms have "length st = 1" by (simp add: allGroupsClosed_def)
  then obtain r cs where st: "st = [(r, cs)]"
    by (cases st) auto
  have "wfStack st" unfolding st_def by (rule wfStack_foldl) simp
  with st have ri: "list_all rootItem cs" by simp
  have "unwind st = unwind [(rootBlock, [])] @ bs"
    unfolding st_def by (rule unwind_foldl) simp
  with st have "r = rootBlock" "concat (map flatten cs) = bs"
    by (simp_all add: unwind_def frameBlocks_def)
  moreover have "buildTree bs = TreeNode r cs None"
    unfolding buildTree_def st_def [symmetric] st by simp
  ultimately show ?thesis using ri by blast
qed

subsection \<open>Reading a flattened tree\<close>

lemma foldl_pushBlock_closed_list:
  assumes "\<And>c st rest. c \<in> set cs \<Longrightarrow> closedNode c \<Longrightarrow> st \<noteq> [] \<Longrightarrow>
             foldl pushBlock st (flatten c @ rest) = foldl pushBlock (addChild c st) rest"
      and "list_all closedNode cs"
  shows "foldl pushBlock ((b, acc) # st) (concat (map flatten cs) @ rest)
       = foldl pushBlock ((b, acc @ cs) # st) rest"
  using assms
proof (induction cs arbitrary: acc)
  case Nil
  show ?case by simp
next
  case (Cons c cs)
  have "foldl pushBlock ((b, acc) # st) (flatten c @ (concat (map flatten cs) @ rest))
      = foldl pushBlock (addChild c ((b, acc) # st)) (concat (map flatten cs) @ rest)"
    using Cons.prems by simp
  moreover have "foldl pushBlock ((b, acc @ [c]) # st) (concat (map flatten cs) @ rest)
      = foldl pushBlock ((b, (acc @ [c]) @ cs) # st) rest"
    using Cons.prems by (intro Cons.IH) simp_all
  ultimately show ?case by simp
qed

lemma foldl_pushBlock_closed:
  "closedNode n \<Longrightarrow> st \<noteq> [] \<Longrightarrow>
   foldl pushBlock st (flatten n @ rest) = foldl pushBlock (addChild n st) rest"
proof (induction n arbitrary: st rest)
  case (TreeNode b cs e)
  show ?case
  proof (cases "type b")
    case groupStart
    with TreeNode.prems obtain x where e: "e = Some x" "type x = groupEnd"
      and cl: "list_all closedNode cs"
      by (auto split: option.splits)
    obtain f fs where st: "st = f # fs" using TreeNode.prems(2) by (cases st) auto
    have "foldl pushBlock ((b, []) # st) (concat (map flatten cs) @ (x # rest))
        = foldl pushBlock ((b, [] @ cs) # st) (x # rest)"
      using TreeNode.IH cl by (rule foldl_pushBlock_closed_list)
    moreover have "pushBlock ((b, cs) # st) x = addChild (TreeNode b cs (Some x)) st"
      using e(2) st by (simp add: pushBlock_def)
    moreover have "pushBlock st b = (b, []) # st"
      using groupStart by (simp add: pushBlock_def)
    ultimately show ?thesis using e by simp
  next
    case groupEnd
    with TreeNode.prems show ?thesis by simp
  next
    case color
    with TreeNode.prems show ?thesis by (simp add: pushBlock_def leaf_def)
  qed
qed

lemma foldl_pushBlock_rootItems:
  "list_all rootItem cs \<Longrightarrow>
   foldl pushBlock [(r, acc)] (concat (map flatten cs) @ rest) = foldl pushBlock [(r, acc @ cs)] rest"
proof (induction cs arbitrary: acc)
  case Nil
  show ?case by simp
next
  case (Cons c cs)
  from Cons.prems have c: "rootItem c" and cs: "list_all rootItem cs" by simp_all
  have "foldl pushBlock [(r, acc)] (flatten c @ (concat (map flatten cs) @ rest))
      = foldl pushBlock [(r, acc @ [c])] (concat (map flatten cs) @ rest)"
  proof (cases "closedNode c")
    case True
    then show ?thesis using foldl_pushBlock_closed [of c "[(r, acc)]"] by simp
  next
    case False
    with c have "type (block c) = groupEnd" "children c = []" "endBlock c = None"
      by (simp_all add: rootItem_def)
    then show ?thesis by (cases c) (simp add: pushBlock_def leaf_def)
  qed
  with Cons.IH [OF cs, of "acc @ [c]"] show ?case by simp
qed

lemma buildTree_flatten:
  "list_all rootItem cs \<Longrightarrow> buildTree (concat (map flatten cs)) = TreeNode rootBlock cs None"
  using foldl_pushBlock_rootItems [of cs rootBlock "[]" "[]"] by (simp add: buildTree_def)

subsection \<open>Sorting with a consistent comparator\<close>

lemma set_insertBy: "set (insertBy cmp x xs) = insert x (set xs)"
  by (induction xs) auto

lemma sorted_insertBy:
  assumes tot: "\<And>a b. cmp a b \<le> 0 \<or> cmp b a \<le> 0"
      and tr: "\<And>a b c. cmp a b \<le> 0 \<Longrightarrow> cmp b c \<le> 0 \<Longrightarrow> cmp a c \<le> 0"
  shows "sorted_wrt (\<lambda>a b. cmp a b \<le> 0) xs \<Longrightarrow> sorted_wrt (\<lambda>a b. cmp a b \<le> 0) (insertBy cmp x xs)"
proof (induction xs)
  case Nil
  show ?case by simp
next
  case (Cons y ys)
  show ?case
  proof (cases "cmp x y \<le> 0")
    case True
    with Cons.prems tr show ?thesis by auto
  next
    case False
    with tot have "cmp y x \<le> 0" by blast
    with False Cons show ?thesis by (auto simp: set_insertBy)
  qed
qed

lemma sorted_arraySort:
  assumes "\<And>a b. cmp a b \<le> 0 \<or> cmp b a \<le> 0"
      and "\<And>a b c. cmp a b \<le> 0 \<Longrightarrow> cmp b c \<le> 0 \<Longrightarrow> cmp a c \<le> 0"
  shows "sorted_wrt (\<lambda>a b. cmp a b \<le> 0) (arraySort cmp xs)"
  unfolding arraySort_def
  by (induction xs) (simp_all add: sorted_insertBy [OF assms])

lemma insertBy_sorted:
  "\<forall>y\<in>set xs. cmp x y \<le> 0 \<Longrightarrow> insertBy cmp x xs = x # xs"
  by (cases xs) simp_all

lemma arraySort_sorted:
  "sorted_wrt (\<lambda>a b. cmp a b \<le> 0) xs \<Longrightarrow> arraySort cmp xs = xs"
  unfolding arraySort_def
  by (induction xs) (simp_all add: insertBy_sorted)

lemma arraySort_idem:
  assumes "\<And>a b. cmp a b \<le> 0 \<or> cmp b a \<le> 0"
      and "\<And>a b c. cmp a b \<le> 0 \<Longrightarrow> cmp b c \<le> 0 \<Longrightarrow> cmp a c \<le> 0"
  shows "arraySort cmp (arraySort cmp xs) = arraySort cmp xs"
  by (rule arraySort_sorted) (rule sorted_arraySort [OF assms])

lemma compareColors_name:
  "compareColors env (str ''name'') a b
   = real_of_int (localeCompare env (orElse (name a) []) (orElse (name b) []))"
  by (simp add: compareColors_def)

lemma compareColors_other:
  assumes "crit \<noteq> str ''name''"
  shows "compareColors env crit a b =
           (if crit = str ''hue'' then fst (hslOf env a) - fst (hslOf env b)
            else if crit = str ''saturation'' then fst (snd (hslOf env b)) - fst (snd (hslOf env a))
            else if crit = str ''lightness'' then snd (snd (hslOf env a)) - snd (snd (hslOf env b))
            else 0)"
  using assms unfolding compareColors_def Let_def hslOf_def by (rule if_not_P)

lemma compareColors_key:
  assumes "crit \<noteq> str ''name''"
  shows "\<exists>k. \<forall>a b. compareColors env crit a b = k a - k b"
proof -
  note o = compareColors_other [OF assms]
  consider "crit = str ''hue''"
    | "crit \<noteq> str ''hue''" "crit = str ''saturation''"
    | "crit \<noteq> str ''hue''" "crit \<noteq> str ''saturation''" "crit = str ''lightness''"
    | "crit \<noteq> str ''hue''" "crit \<noteq> str ''saturation''" "crit \<noteq> str ''lightness''"
    by blast
  then show ?thesis
  proof cases
    case 1
    show ?thesis unfolding o
      by (rule exI [of _ "\<lambda>x. fst (hslOf env x)"]) (simp add: 1)
  next
    case 2
    show ?thesis unfolding o
      by (rule exI [of _ "\<lambda>x. - fst (snd (hslOf env x))"]) (simp add: 2(2) str_def)
  next
    case 3
    show ?thesis unfolding o
      by (rule exI [of _ "\<lambda>x. snd (snd (hslOf env x))"]) (simp add: 3(3) str_def)
  next
    case 4
    show ?thesis unfolding o
      by (rule exI [of _ "\<lambda>x. 0"]) (simp add: 4)
  qed
qed

lemma compareColors_total:
  assumes "consistentComparator (localeCompare env)"
  shows "compareColors env crit a b \<le> 0 \<or> compareColors env crit b a \<le> 0"
proof (cases "crit = str ''name''")
  case True
  have "localeCompare env x y \<le> 0 \<or> localeCompare env y x \<le> 0" for x y
    using assms unfolding consistentComparator_def by blast
  then show ?thesis unfolding True compareColors_name by simp
next
  case False
  from compareColors_key [OF False] obtain k where
    "\<And>a b. compareColors env crit a b = k a - k b" by blast
  then show ?thesis by (simp) linarith
qed

lemma compareColors_trans:
  assumes "consistentComparator (localeCompare env)"
      and "compareColors env crit a b \<le> 0" and "compareColors env crit b c \<le> 0"
  shows "compareColors env crit a c \<le> 0"
proof (cases "crit = str ''name''")
  case True
  have "localeCompare env x y \<le> 0 \<Longrightarrow> localeCompare env y z \<le> 0 \<Longrightarrow> localeCompare env x z \<le> 0"
    for x y z
    using assms(1) unfolding consistentComparator_def by blast
  then show ?thesis using assms(2,3) unfolding True compareColors_name by simp
next
  case False
  from compareColors_key [OF False] obtain k where
    "\<And>a b. compareColors env crit a b = k a - k b" by blast
  with assms(2,3) show ?thesis by simp
qed

lemma compareNodes_total:
  assumes "consistentComparator (localeCompare env)"
  shows "compareNodes env crit a b \<le> 0 \<or> compareNodes env crit b a \<le> 0"
proof -
  have l: "localeCompare env x y \<le> 0 \<or> localeCompare env y x \<le> 0" for x y
    using assms unfolding consistentComparator_def by blast
  show ?thesis
    using compareColors_total [OF assms, of crit "block a" "block b"]
      l [of "orElse (name (block a)) []" "orElse (name (block b)) []"]
    by (simp add: compareNodes_def Let_def)
qed

lemma compareNodes_trans:
  assumes "consistentComparator (localeCompare env)"
      and "compareNodes env crit a b \<le> 0" and "compareNodes env crit b c \<le> 0"
  shows "compareNodes env crit a c \<le> 0"
proof -
  have l: "localeCompare env x y \<le> 0 \<Longrightarrow> localeCompare env y z \<le> 0 \<Longrightarrow> localeCompare env x z \<le> 0" for x y z
    using assms(1) unfolding consistentComparator_def by blast
  show ?thesis
    using assms(2,3) compareColors_trans [OF assms(1), of crit "block a" "block b" "block c"]
      l [of "orElse (name (block a)) []" "orElse (name (block b)) []" "orElse (name (block c)) []"]
    by (simp add: compareNodes_def Let_def split: if_splits)
qed

lemma arraySort_compareNodes_idem:
  assumes "consistentComparator (localeCompare env)"
  shows "arraySort (compareNodes env crit) (arraySort (compareNodes env crit) xs)
       = arraySort (compareNodes env crit) xs"
  by (rule arraySort_idem) (rule compareNodes_total [OF assms], rule compareNodes_trans [OF assms])

lemma sortNode_idem:
  assumes "consistentComparator (localeCompare env)"
  shows "sortNode env crit (sortNode env crit n) = sortNode env crit n"
proof (induction n)
  case (TreeNode b cs e)
  let ?ys = "map (sortNode env crit) cs"
  have "\<forall>y\<in>set (arraySort (compareNodes env crit) ?ys). sortNode env crit y = y"
    using TreeNode.IH by (auto simp: set_arraySort)
  then have "map (sortNode env crit) (arraySort (compareNodes env crit) ?ys)
           = arraySort (compareNodes env crit) ?ys"
    by (simp add: map_idI)
  then show ?case
    by (simp add: arraySort_compareNodes_idem [OF assms])
qed

lemma sortTree_idem:
  assumes "consistentComparator (localeCompare env)"
  shows "sortTree env crit (sortTree env crit cs) = sortTree env crit cs"
proof -
  let ?ys = "map (sortNode env crit) cs"
  have "\<forall>y\<in>set (arraySort (compareNodes env crit) ?ys). sortNode env crit y = y"
    by (auto simp: set_arraySort sortNode_idem [OF assms])
  then have "map (sortNode env crit) (arraySort (compareNodes env crit) ?ys)
           = arraySort (compareNodes env crit) ?ys"
    by (simp add: map_idI)
  then show ?thesis
    by (simp add: sortTree_def arraySort_compareNodes_idem [OF assms])
qed

lemma sortBlocksHierarchically_closed:
  assumes "buildTree bs = TreeNode rootBlock cs None"
  shows "sortBlocksHierarchically env bs crit = concat (map flatten (sortTree env crit cs))"
  using assms by (simp add: sortBlocksHierarchically_def Let_def flattenRoot_def)

lemma depths_nesting:
  "depths (length ctx) bs = map (\<lambda>(b, p). (b, length p)) (nesting ctx bs)"
proof (induction bs arbitrary: ctx)
  case Nil
  show ?case by simp
next
  case (Cons b bs)
  show ?case
    using Cons.IH [of ctx] Cons.IH [of "b # ctx"] Cons.IH [of "tl ctx"]
    by (cases "type b") simp_all
qed

lemma nesting_sorted:
  assumes "allGroupsClosed bs"
  shows "mset (nesting [] (sortBlocksHierarchically env bs crit)) = mset (nesting [] bs)"
proof -
  from buildTree_closed [OF assms] obtain cs where
    t: "buildTree bs = TreeNode rootBlock cs None" and ri: "list_all rootItem cs"
    and bs: "concat (map flatten cs) = bs" by blast
  have ri': "list_all rootItem (sortTree env crit cs)"
    using ri by (simp add: rootItems_sortTree)
  have "nesting [] (sortBlocksHierarchically env bs crit)
      = concat (map (nodeNesting []) (sortTree env crit cs))"
    using nesting_rootItems [OF ri', of "[]"]
    by (simp add: sortBlocksHierarchically_closed [OF t])
  moreover have "nesting [] bs = concat (map (nodeNesting []) cs)"
    using nesting_rootItems [OF ri, of "[]"] by (simp add: bs)
  ultimately show ?thesis by (simp add: mset_nodeNesting_sortTree)
qed

lemma depths_sorted:
  assumes "allGroupsClosed bs"
  shows "mset (depths 0 (sortBlocksHierarchically env bs crit)) = mset (depths 0 bs)"
proof -
  have "depths 0 xs = map (\<lambda>(b, p). (b, length p)) (nesting [] xs)" for xs
    using depths_nesting [of "[]" xs] by simp
  then show ?thesis
    using nesting_sorted [OF assms, of env crit]
    by (metis mset_map)
qed

lemma sort_idem:
  assumes "consistentComparator (localeCompare env)" and "allGroupsClosed bs"
  shows "sortBlocksHierarchically env (sortBlocksHierarchically env bs crit) crit
       = sortBlocksHierarchically env bs crit"
proof -
  from buildTree_closed [OF assms(2)] obtain cs where
    t: "buildTree bs = TreeNode rootBlock cs None" and ri: "list_all rootItem cs" by blast
  have s: "sortBlocksHierarchically env bs crit = concat (map flatten (sortTree env crit cs))"
    by (rule sortBlocksHierarchically_closed [OF t])
  have "list_all rootItem (sortTree env crit cs)"
    using ri by (simp add: rootItems_sortTree)
  then have "buildTree (concat (map flatten (sortTree env crit cs)))
           = TreeNode rootBlock (sortTree env crit cs) None"
    by (rule buildTree_flatten)
  then have "sortBlocksHierarchically env (concat (map flatten (sortTree env crit cs))) crit
           = concat (map flatten (sortTree env crit (sortTree env crit cs)))"
    by (rule sortBlocksHierarchically_closed)
  then show ?thesis
    by (simp add: s sortTree_idem [OF assms(1)])
qed

subsection \<open>A group that is never closed\<close>

lemmas sample_defs = sampleColor_def sampleGroup_def sampleEnd_def

lemma tag_lightness: "str ''lightness'' \<noteq> str ''name''" "str ''lightness'' \<noteq> str ''hue''"
  "str ''lightness'' \<noteq> str ''saturation''"
  by (simp_all add: str_def)

lemma trim_RGB: "trim (str ''RGB '') = str ''RGB''" "trim (str ''RGB'') = str ''RGB''"
  by (simp_all add: trim_def str_def isWhiteSpace_def)

lemma model_neq: "str ''RGB'' \<noteq> str ''CMYK''" "str ''RGB'' \<noteq> str ''LAB''" "str ''RGB '' \<noteq> []"
  by (simp_all add: str_def)

lemma sample_not_in_library:
  "getOfficialEntry sampleEnv (str ''c1'') = None" "getOfficialEntry sampleEnv (str ''x'') = None"
  "getOfficialHex sampleEnv n = None"
  by (simp_all add: sampleEnv_def str_def)

lemma blockToRgb_grey:
  assumes "getOfficialEntry sampleEnv (str nm) = None"
  shows "blockToRgb sampleEnv (sampleColor nm ''RGB '' [v, v, v]) = [v, v, v]"
  using assms
  by (simp add: blockToRgb_def Let_def sampleColor_def orElse_def trim_RGB model_neq authority_def
        sample_not_in_library(3) ch_def split: option.splits)

lemma blockToRgb_marker:
  "blockToRgb sampleEnv (sampleGroup nm) = [0, 0, 0]" "blockToRgb sampleEnv sampleEnd = [0, 0, 0]"
  by (simp_all add: blockToRgb_def Let_def sample_defs)

lemma getHSL_grey: "getHSL v v v = (0, 0, v)"
  by (simp add: getHSL_def)

lemma lightness_grey:
  assumes "getOfficialEntry sampleEnv (str n1) = None" "getOfficialEntry sampleEnv (str n2) = None"
  shows "compareColors sampleEnv (str ''lightness'') (sampleColor n1 ''RGB '' [v, v, v])
           (sampleColor n2 ''RGB '' [w, w, w]) = v - w"
  by (simp add: compareColors_def tag_lightness Let_def blockToRgb_grey [OF assms(1)]
        blockToRgb_grey [OF assms(2)] getHSL_grey)

lemma sort_unclosed:
  "sortBlocksHierarchically sampleEnv
     [sampleColor ''c1'' ''RGB '' [1/5, 1/5, 1/5], sampleGroup ''A'',
      sampleColor ''x'' ''RGB '' [1/2, 1/2, 1/2]] (str ''lightness'')
   = [sampleGroup ''A'', sampleColor ''x'' ''RGB '' [1/2, 1/2, 1/2],
      sampleColor ''c1'' ''RGB '' [1/5, 1/5, 1/5]]"
proof -
  have t: "buildTree [sampleColor ''c1'' ''RGB '' [1/5, 1/5, 1/5], sampleGroup ''A'',
      sampleColor ''x'' ''RGB '' [1/2, 1/2, 1/2]]
    = TreeNode rootBlock
        [leaf (sampleColor ''c1'' ''RGB '' [1/5, 1/5, 1/5]),
         TreeNode (sampleGroup ''A'') [leaf (sampleColor ''x'' ''RGB '' [1/2, 1/2, 1/2])] None] None"
    by (simp add: buildTree_def pushBlock_def sample_defs leaf_def)
  have c: "compareNodes sampleEnv (str ''lightness'')
             (leaf (sampleColor ''c1'' ''RGB '' [1/5, 1/5, 1/5]))
             (TreeNode (sampleGroup ''A'') cs None) = 1" for cs
    by (simp add: compareNodes_def leaf_def sample_defs)
  show ?thesis
    unfolding sortBlocksHierarchically_def t Let_def
    by (simp add: sortTree_def arraySort_def leaf_def c [unfolded leaf_def] flattenRoot_def)
qed

lemma sort_unclosed_again:
  "sortBlocksHierarchically sampleEnv
     [sampleGroup ''A'', sampleColor ''x'' ''RGB '' [1/2, 1/2, 1/2],
      sampleColor ''c1'' ''RGB '' [1/5, 1/5, 1/5]] (str ''lightness'')
   = [sampleGroup ''A'', sampleColor ''c1'' ''RGB '' [1/5, 1/5, 1/5],
      sampleColor ''x'' ''RGB '' [1/2, 1/2, 1/2]]"
proof -
  have t: "buildTree [sampleGroup ''A'', sampleColor ''x'' ''RGB '' [1/2, 1/2, 1/2],
      sampleColor ''c1'' ''RGB '' [1/5, 1/5, 1/5]]
    = TreeNode rootBlock
        [TreeNode (sampleGroup ''A'') [leaf (sampleColor ''x'' ''RGB '' [1/2, 1/2, 1/2]),
           leaf (sampleColor ''c1'' ''RGB '' [1/5, 1/5, 1/5])] None] None"
    by (simp add: buildTree_def pushBlock_def sample_defs leaf_def)
  have c: "compareNodes sampleEnv (str ''lightness'')
             (leaf (sampleColor ''x'' ''RGB '' [1/2, 1/2, 1/2]))
             (leaf (sampleColor ''c1'' ''RGB '' [1/5, 1/5, 1/5])) = 1/2 - 1/5"
    using lightness_grey [OF sample_not_in_library(2) sample_not_in_library(1), of "1/2" "1/5"]
    by (simp add: compareNodes_def leaf_def sampleColor_def)
  show ?thesis
    unfolding sortBlocksHierarchically_def t Let_def
    using c by (simp add: sortTree_def arraySort_def leaf_def flattenRoot_def)
qed

subsection \<open>Structure and idempotence\<close>

lemma codeUnitCompare_le: "codeUnitCompare a b \<le> 0 \<longleftrightarrow> a \<le> b"
  by (auto simp: codeUnitCompare_def)

lemma codeUnitCompare_consistent: "consistentComparator codeUnitCompare"
  unfolding consistentComparator_def codeUnitCompare_le by (auto intro: order_trans linear)

lemma sample_closed:
  "allGroupsClosed
     [sampleEnd, sampleColor ''c1'' ''RGB '' [1/5, 1/5, 1/5], sampleGroup ''A'',
      sampleColor ''x'' ''RGB '' [1/2, 1/2, 1/2], sampleEnd]"
  by (simp add: allGroupsClosed_def sample_defs)

text \<open>
  Claim C3, amended. For every block sequence, balanced or not, \<open>sortBlocksHierarchically\<close>
  returns a permutation of the input, of the same length, and it cannot fail: the
  function is total. A \<open>groupEnd\<close> that meets the bare root is appended to the root as a
  leaf. When every \<open>groupStart\<close> of the input is closed by a later \<open>groupEnd\<close> (orphan
  \<open>groupEnd\<close>s are allowed), every block keeps its enclosing groups, and so its nesting
  depth.
\<close>

theorem sortBlocksHierarchically_preserves_structure:
  "mset (sortBlocksHierarchically env bs crit) = mset bs
   \<and> length (sortBlocksHierarchically env bs crit) = length bs
   \<and> (allGroupsClosed bs \<longrightarrow>
        mset (nesting [] (sortBlocksHierarchically env bs crit)) = mset (nesting [] bs)
        \<and> mset (depths 0 (sortBlocksHierarchically env bs crit)) = mset (depths 0 bs))
   \<and> (type b = groupEnd \<longrightarrow> pushBlock [(r, cs)] b = [(r, cs @ [leaf b])])"
proof (intro conjI impI)
  show p: "mset (sortBlocksHierarchically env bs crit) = mset bs"
    by (rule mset_sortBlocksHierarchically)
  show "length (sortBlocksHierarchically env bs crit) = length bs"
    using p by (rule mset_eq_length)
next
  assume "allGroupsClosed bs"
  then show "mset (nesting [] (sortBlocksHierarchically env bs crit)) = mset (nesting [] bs)"
    by (rule nesting_sorted)
next
  assume "allGroupsClosed bs"
  then show "mset (depths 0 (sortBlocksHierarchically env bs crit)) = mset (depths 0 bs)"
    by (rule depths_sorted)
next
  assume "type b = groupEnd"
  then show "pushBlock [(r, cs)] b = [(r, cs @ [leaf b])]"
    by (simp add: pushBlock_def)
qed

theorem sortBlocksHierarchically_preserves_structure_witness:
  "allGroupsClosed
     [sampleEnd, sampleColor ''c1'' ''RGB '' [1/5, 1/5, 1/5], sampleGroup ''A'',
      sampleColor ''x'' ''RGB '' [1/2, 1/2, 1/2], sampleEnd]
   \<and> type sampleEnd = groupEnd
   \<and> mset (depths 0 (sortBlocksHierarchically sampleEnv
        [sampleEnd, sampleColor ''c1'' ''RGB '' [1/5, 1/5, 1/5], sampleGroup ''A'',
         sampleColor ''x'' ''RGB '' [1/2, 1/2, 1/2], sampleEnd] (str ''lightness'')))
     = mset (depths 0
        [sampleEnd, sampleColor ''c1'' ''RGB '' [1/5, 1/5, 1/5], sampleGroup ''A'',
         sampleColor ''x'' ''RGB '' [1/2, 1/2, 1/2], sampleEnd])
   \<and> pushBlock [(rootBlock, [])] sampleEnd = [(rootBlock, [] @ [leaf sampleEnd])]"
proof -
  have h: "type sampleEnd = groupEnd" by (simp add: sampleEnd_def)
  from sample_closed h
    sortBlocksHierarchically_preserves_structure
      [of sampleEnv "[sampleEnd, sampleColor ''c1'' ''RGB '' [1/5, 1/5, 1/5], sampleGroup ''A'',
         sampleColor ''x'' ''RGB '' [1/2, 1/2, 1/2], sampleEnd]" "str ''lightness''"
         sampleEnd rootBlock "[]"]
  show ?thesis by blast
qed

lemma sample_distinct:
  "sampleColor ''c1'' ''RGB '' [1/5, 1/5, 1/5] \<noteq> sampleColor ''x'' ''RGB '' [1/2, 1/2, 1/2]"
  "sampleColor ''c1'' ''RGB '' [1/5, 1/5, 1/5] \<noteq> sampleGroup ''A''"
  "sampleColor ''x'' ''RGB '' [1/2, 1/2, 1/2] \<noteq> sampleGroup ''A''"
  by (simp_all add: sample_defs)

text \<open>
  Claim C3 as stated fails for a group that is never closed: the colour \<open>c1\<close> stands
  before the open group \<open>A\<close>, at depth \<open>0\<close>; groups sort first, so the output has \<open>c1\<close> after
  the \<open>groupStart\<close> of \<open>A\<close>, and with no \<open>groupEnd\<close> in between it now lies inside \<open>A\<close>, at
  depth \<open>1\<close>.
\<close>

theorem sortBlocksHierarchically_preserves_structure_counterexample:
  "sortBlocksHierarchically sampleEnv
     [sampleColor ''c1'' ''RGB '' [1/5, 1/5, 1/5], sampleGroup ''A'',
      sampleColor ''x'' ''RGB '' [1/2, 1/2, 1/2]] (str ''lightness'')
   = [sampleGroup ''A'', sampleColor ''x'' ''RGB '' [1/2, 1/2, 1/2],
      sampleColor ''c1'' ''RGB '' [1/5, 1/5, 1/5]]
   \<and> depths 0 [sampleColor ''c1'' ''RGB '' [1/5, 1/5, 1/5], sampleGroup ''A'',
                sampleColor ''x'' ''RGB '' [1/2, 1/2, 1/2]]
     = [(sampleColor ''c1'' ''RGB '' [1/5, 1/5, 1/5], 0), (sampleGroup ''A'', 0),
        (sampleColor ''x'' ''RGB '' [1/2, 1/2, 1/2], 1)]
   \<and> depths 0 (sortBlocksHierarchically sampleEnv
        [sampleColor ''c1'' ''RGB '' [1/5, 1/5, 1/5], sampleGroup ''A'',
         sampleColor ''x'' ''RGB '' [1/2, 1/2, 1/2]] (str ''lightness''))
     = [(sampleGroup ''A'', 0), (sampleColor ''x'' ''RGB '' [1/2, 1/2, 1/2], 1),
        (sampleColor ''c1'' ''RGB '' [1/5, 1/5, 1/5], 1)]
   \<and> mset (depths 0 (sortBlocksHierarchically sampleEnv
        [sampleColor ''c1'' ''RGB '' [1/5, 1/5, 1/5], sampleGroup ''A'',
         sampleColor ''x'' ''RGB '' [1/2, 1/2, 1/2]] (str ''lightness'')))
     \<noteq> mset (depths 0 [sampleColor ''c1'' ''RGB '' [1/5, 1/5, 1/5], sampleGroup ''A'',
                sampleColor ''x'' ''RGB '' [1/2, 1/2, 1/2]])"
proof -
  let ?c = "sampleColor ''c1'' ''RGB '' [1/5, 1/5, 1/5]"
  let ?x = "sampleColor ''x'' ''RGB '' [1/2, 1/2, 1/2]"
  let ?A = "sampleGroup ''A''"
  have ty: "type ?c = color" "type ?x = color" "type ?A = groupStart"
    by (simp_all add: sample_defs)
  have d1: "depths 0 [?c, ?A, ?x] = [(?c, 0), (?A, 0), (?x, 1)]"
    by (simp add: ty)
  have d2: "depths 0 [?A, ?x, ?c] = [(?A, 0), (?x, 1), (?c, 1)]"
    by (simp add: ty)
  have "(?c, 1 :: nat) \<in> set [(?A, 0), (?x, 1), (?c, 1)]" by simp
  moreover have "(?c, 1 :: nat) \<notin> set [(?c, 0), (?A, 0), (?x, 1)]"
    using sample_distinct by simp
  ultimately have "mset [(?A, 0 :: nat), (?x, 1), (?c, 1)] \<noteq> mset [(?c, 0), (?A, 0), (?x, 1)]"
    by (metis set_mset_mset)
  then show ?thesis
    unfolding sort_unclosed d1 d2 by simp
qed

text \<open>
  Claim C9, amended. When \<open>localeCompare\<close> is a consistent comparator and every
  \<open>groupStart\<close> of the sequence is closed by a later \<open>groupEnd\<close>, sorting the sorted
  sequence again returns it unchanged, for every criterion.
\<close>

theorem sortBlocksHierarchically_idempotent:
  assumes "consistentComparator (localeCompare env)" and "allGroupsClosed bs"
  shows "sortBlocksHierarchically env (sortBlocksHierarchically env bs crit) crit
       = sortBlocksHierarchically env bs crit"
  using assms by (rule sort_idem)

theorem sortBlocksHierarchically_idempotent_witness:
  "consistentComparator (localeCompare sampleEnv)
   \<and> allGroupsClosed
       [sampleEnd, sampleColor ''c1'' ''RGB '' [1/5, 1/5, 1/5], sampleGroup ''A'',
        sampleColor ''x'' ''RGB '' [1/2, 1/2, 1/2], sampleEnd]
   \<and> sortBlocksHierarchically sampleEnv
        (sortBlocksHierarchically sampleEnv
           [sampleEnd, sampleColor ''c1'' ''RGB '' [1/5, 1/5, 1/5], sampleGroup ''A'',
            sampleColor ''x'' ''RGB '' [1/2, 1/2, 1/2], sampleEnd] (str ''lightness''))
        (str ''lightness'')
     = sortBlocksHierarchically sampleEnv
         [sampleEnd, sampleColor ''c1'' ''RGB '' [1/5, 1/5, 1/5], sampleGroup ''A'',
          sampleColor ''x'' ''RGB '' [1/2, 1/2, 1/2], sampleEnd] (str ''lightness'')"
proof -
  have h: "consistentComparator (localeCompare sampleEnv)"
    by (simp add: sampleEnv_def codeUnitCompare_consistent)
  from h sample_closed sortBlocksHierarchically_idempotent [OF h sample_closed, of "str ''lightness''"]
  show ?thesis by blast
qed

text \<open>
  Claim C9 as stated fails for a group that is never closed: sorting \<open>[c1, A, x]\<close> by
  lightness gives \<open>[A, x, c1]\<close>, which reads as a group \<open>A\<close> holding \<open>x\<close> and \<open>c1\<close>; sorting
  again orders the two inside the group and gives \<open>[A, c1, x]\<close>.
\<close>

theorem sortBlocksHierarchically_idempotent_counterexample:
  "consistentComparator (localeCompare sampleEnv)
   \<and> sortBlocksHierarchically sampleEnv
        (sortBlocksHierarchically sampleEnv
           [sampleColor ''c1'' ''RGB '' [1/5, 1/5, 1/5], sampleGroup ''A'',
            sampleColor ''x'' ''RGB '' [1/2, 1/2, 1/2]] (str ''lightness''))
        (str ''lightness'')
     \<noteq> sortBlocksHierarchically sampleEnv
         [sampleColor ''c1'' ''RGB '' [1/5, 1/5, 1/5], sampleGroup ''A'',
          sampleColor ''x'' ''RGB '' [1/2, 1/2, 1/2]] (str ''lightness'')"
proof -
  have h: "consistentComparator (localeCompare sampleEnv)"
    by (simp add: sampleEnv_def codeUnitCompare_consistent)
  show ?thesis
    unfolding sort_unclosed sort_unclosed_again
    using h sample_distinct by simp
qed

end
